theory Spec2Isabelle
  imports
    Main
    "HOL-Library.Char_ord"
    "HOL-Library.List_Lexorder"
    "HOL-Library.Multiset"
    "HOL-Library.Sublist"
begin

section \<open>Values, dictionaries and exceptions\<close>

text \<open>
  The scripts work on the values that \<^verbatim>\<open>json.load\<close> and \<^verbatim>\<open>tomllib.load\<close> return and
  test their shape at run time with \<^verbatim>\<open>isinstance\<close>. A value is therefore one datatype.
  A dictionary is an association list in insertion order with \<^verbatim>\<open>map_of\<close> as lookup.
  A float is kept as a mantissa and an exponent; no function below reads one.
  Strings are lists of \<^typ>\<open>char\<close>, compared lexicographically as Python compares
  \<^verbatim>\<open>str\<close>.
\<close>

datatype json =
    JNull
  | JBool bool
  | JInt int
  | JFloat int int
  | JStr string
  | JList "json list"
  | JObj "(string \<times> json) list"

type_synonym dict = "(string \<times> json) list"

text \<open>Python exceptions, by class, with the message the source gives them.\<close>

datatype error =
    ValueError string
  | RuntimeError string
  | KeyError string
  | TypeError string
  | AttributeError string
  | IndexError string

text \<open>A text between single quotes, as the messages of the source print names.\<close>

definition squote :: "string \<Rightarrow> string" where
  "squote s = CHR 0x27 # s @ [CHR 0x27]"

definition type_name :: "json \<Rightarrow> string" where
  "type_name v =
     (case v of
        JNull \<Rightarrow> ''NoneType'' | JBool _ \<Rightarrow> ''bool'' | JInt _ \<Rightarrow> ''int'' | JFloat _ _ \<Rightarrow> ''float''
      | JStr _ \<Rightarrow> ''str'' | JList _ \<Rightarrow> ''list'' | JObj _ \<Rightarrow> ''dict'')"

text \<open>\<^verbatim>\<open>d.get(k)\<close>: the value, or \<^verbatim>\<open>None\<close> when the key is absent.\<close>

definition dict_get :: "dict \<Rightarrow> string \<Rightarrow> json" where
  "dict_get d k = (case map_of d k of Some v \<Rightarrow> v | None \<Rightarrow> JNull)"

text \<open>\<^verbatim>\<open>d.get(k, default)\<close>.\<close>

definition dict_get_default :: "dict \<Rightarrow> string \<Rightarrow> json \<Rightarrow> json" where
  "dict_get_default d k dflt = (case map_of d k of Some v \<Rightarrow> v | None \<Rightarrow> dflt)"

text \<open>\<^verbatim>\<open>x[k]\<close> with a string key: \<^verbatim>\<open>KeyError\<close> on a dictionary without the key,
  \<^verbatim>\<open>TypeError\<close> on a value that is no dictionary.\<close>

definition subscript :: "json \<Rightarrow> string \<Rightarrow> error + json" where
  "subscript x k =
     (case x of
        JObj d \<Rightarrow> (case map_of d k of Some v \<Rightarrow> Inr v | None \<Rightarrow> Inl (KeyError k))
      | JList _ \<Rightarrow> Inl (TypeError ''list indices must be integers or slices, not str'')
      | JStr _ \<Rightarrow> Inl (TypeError (''string indices must be integers, not '' @ squote ''str''))
      | _ \<Rightarrow> Inl (TypeError (squote (type_name x) @ '' object is not subscriptable'')))"

text \<open>\<^verbatim>\<open>isinstance(v, str) and v\<close>: a non-empty string.\<close>

definition nonempty_str :: "json \<Rightarrow> bool" where
  "nonempty_str v = (case v of JStr s \<Rightarrow> s \<noteq> [] | _ \<Rightarrow> False)"

text \<open>\<^verbatim>\<open>isinstance(v, int)\<close> holds for integers and for booleans (\<^verbatim>\<open>bool\<close> is a
  subclass of \<^verbatim>\<open>int\<close>, with \<^verbatim>\<open>True == 1\<close>).\<close>

definition is_int :: "json \<Rightarrow> bool" where
  "is_int v = (case v of JInt _ \<Rightarrow> True | JBool _ \<Rightarrow> True | _ \<Rightarrow> False)"

definition int_val :: "json \<Rightarrow> int" where
  "int_val v = (case v of JInt n \<Rightarrow> n | JBool b \<Rightarrow> (if b then 1 else 0) | _ \<Rightarrow> 0)"

text \<open>Membership in a Python \<^verbatim>\<open>set\<close> hashes the value first: a list or a dictionary
  raises \<^verbatim>\<open>TypeError\<close>.\<close>

definition unhashable :: "json \<Rightarrow> bool" where
  "unhashable v = (case v of JList _ \<Rightarrow> True | JObj _ \<Rightarrow> True | _ \<Rightarrow> False)"

text \<open>An f-string field: a string is inserted as it is; for any other value the text is
  what Python's \<^verbatim>\<open>str()\<close> makes of it, taken as the parameter \<open>fmt\<close>.\<close>

definition fstr :: "(json \<Rightarrow> string) \<Rightarrow> json \<Rightarrow> string" where
  "fstr fmt v = (case v of JStr s \<Rightarrow> s | _ \<Rightarrow> fmt v)"

text \<open>Decimal text of an index, as an f-string prints it.\<close>

fun str_of_nat :: "nat \<Rightarrow> string" where
  "str_of_nat n =
     (if n < 10 then [char_of (48 + n)]
      else str_of_nat (n div 10) @ [char_of (48 + n mod 10)])"

declare str_of_nat.simps [simp del]

section \<open>build\_mrpack.py\<close>

definition VALID_SIDES :: "string set" where
  "VALID_SIDES = {''both'', ''client'', ''server''}"

text \<open>\<^verbatim>\<open>validate_entries\<close>: the loop over \<^verbatim>\<open>enumerate(entries)\<close>, the first failing check
  raises.\<close>

fun validate_entries_loop :: "string \<Rightarrow> nat \<Rightarrow> json list \<Rightarrow> error option" where
  "validate_entries_loop manifest_name i [] = None"
| "validate_entries_loop manifest_name i (entry # rest) =
     (case entry of
        JObj d \<Rightarrow>
          (let filename = dict_get d ''filename'';
               side = dict_get d ''side'';
               downloads = dict_get d ''downloads'';
               hashes = dict_get d ''hashes'';
               file_size = dict_get d ''fileSize''
           in
           if \<not> nonempty_str filename then
             Some (ValueError (manifest_name @ ''['' @ str_of_nat i @ ''].filename must be a non-empty string''))
           else if unhashable side then
             Some (TypeError (''unhashable type: '' @ squote (type_name side)))
           else if \<not> (case side of JStr s \<Rightarrow> s \<in> VALID_SIDES | _ \<Rightarrow> False) then
             Some (ValueError (manifest_name @ ''['' @ str_of_nat i @
                     ''].side must be one of ['both', 'client', 'server']''))
           else if \<not> (case downloads of JList us \<Rightarrow> us \<noteq> [] \<and> list_all nonempty_str us | _ \<Rightarrow> False) then
             Some (ValueError (manifest_name @ ''['' @ str_of_nat i @
                     ''].downloads must be a non-empty array of URLs''))
           else if \<not> (case hashes of
                         JObj h \<Rightarrow> map_of h ''sha1'' \<noteq> None \<or> map_of h ''sha512'' \<noteq> None
                       | _ \<Rightarrow> False) then
             Some (ValueError (manifest_name @ ''['' @ str_of_nat i @
                     ''].hashes must include at least sha1 or sha512''))
           else if \<not> is_int file_size \<or> int_val file_size \<le> 0 then
             Some (ValueError (manifest_name @ ''['' @ str_of_nat i @ ''].fileSize must be an integer > 0''))
           else validate_entries_loop manifest_name (Suc i) rest)
      | _ \<Rightarrow> Some (ValueError (manifest_name @ ''['' @ str_of_nat i @ ''] must be an object'')))"

definition validate_entries :: "json \<Rightarrow> string \<Rightarrow> error + json list" where
  "validate_entries entries manifest_name =
     (case entries of
        JList es \<Rightarrow>
          (case validate_entries_loop manifest_name 0 es of
             Some e \<Rightarrow> Inl e
           | None \<Rightarrow> Inr es)
      | _ \<Rightarrow> Inl (ValueError (manifest_name @ '' must be a JSON array'')))"

definition env_for_side :: "json \<Rightarrow> dict" where
  "env_for_side side =
     (if side = JStr ''client'' then
        [(''client'', JStr ''required''), (''server'', JStr ''unsupported'')]
      else if side = JStr ''server'' then
        [(''client'', JStr ''unsupported''), (''server'', JStr ''required'')]
      else
        [(''client'', JStr ''required''), (''server'', JStr ''required'')])"

text \<open>\<^verbatim>\<open>build_files\<close>: \<open>files\<close> is the list built so far. The test
  \<^verbatim>\<open>entry["side"] not in ("both", side)\<close> compares with \<^verbatim>\<open>==\<close>; the dictionary display
  then reads \<^verbatim>\<open>filename\<close>, \<^verbatim>\<open>hashes\<close>, \<^verbatim>\<open>downloads\<close>, \<^verbatim>\<open>fileSize\<close> and \<^verbatim>\<open>side\<close>
  in that order.\<close>

fun build_files_loop ::
  "(json \<Rightarrow> string) \<Rightarrow> json list \<Rightarrow> json list \<Rightarrow> string \<Rightarrow> string \<Rightarrow> error + json list" where
  "build_files_loop fmt files [] side path_prefix = Inr files"
| "build_files_loop fmt files (entry # entries) side path_prefix =
     (case subscript entry ''side'' of
        Inl e \<Rightarrow> Inl e
      | Inr entry_side \<Rightarrow>
          if \<not> (entry_side = JStr ''both'' \<or> entry_side = JStr side) then
            build_files_loop fmt files entries side path_prefix
          else
            (case subscript entry ''filename'' of
               Inl e \<Rightarrow> Inl e
             | Inr filename \<Rightarrow>
            (case subscript entry ''hashes'' of
               Inl e \<Rightarrow> Inl e
             | Inr hashes \<Rightarrow>
            (case subscript entry ''downloads'' of
               Inl e \<Rightarrow> Inl e
             | Inr downloads \<Rightarrow>
            (case subscript entry ''fileSize'' of
               Inl e \<Rightarrow> Inl e
             | Inr file_size \<Rightarrow>
                 build_files_loop fmt
                   (files @
                     [JObj [(''path'', JStr (path_prefix @ ''/'' @ fstr fmt filename)),
                            (''hashes'', hashes),
                            (''downloads'', downloads),
                            (''fileSize'', file_size),
                            (''env'', JObj (env_for_side entry_side))]])
                   entries side path_prefix)))))"

definition build_files ::
  "(json \<Rightarrow> string) \<Rightarrow> json list \<Rightarrow> string \<Rightarrow> string \<Rightarrow> error + json list" where
  "build_files fmt entries side path_prefix = build_files_loop fmt [] entries side path_prefix"


section \<open>resolve\_manifests.py\<close>

subsection \<open>The library functions the script calls\<close>

text \<open>
  A \<^verbatim>\<open>datetime\<close> is naive (no offset) or aware; each kind is ordered by its instant, in
  microseconds, and comparing a naive with an aware one raises \<^verbatim>\<open>TypeError\<close>.
\<close>

datatype datetime = Naive int | Aware int

text \<open>
  What the standard library decides from Unicode tables, address grammars or date
  grammars is a parameter of the model:
  \<^item> \<open>check_bracketed_host\<close>: \<^verbatim>\<open>urllib.parse._check_bracketed_host\<close>, the error it raises
    if any;
  \<^item> \<open>checknetloc_nfkc\<close>: the NFKC part of \<^verbatim>\<open>urllib.parse._checknetloc\<close>, reached for a
    network location that is not ASCII;
  \<^item> \<open>py_str\<close>: \<^verbatim>\<open>str()\<close> of a value that is not a string;
  \<^item> \<open>str_lower\<close>: \<^verbatim>\<open>str.lower\<close>;
  \<^item> \<open>fromisoformat\<close>: \<^verbatim>\<open>datetime.datetime.fromisoformat\<close>.
\<close>

record pylib =
  check_bracketed_host :: "string \<Rightarrow> error option"
  checknetloc_nfkc :: "string \<Rightarrow> error option"
  py_str :: "json \<Rightarrow> string"
  str_lower :: "string \<Rightarrow> string"
  fromisoformat :: "string \<Rightarrow> error + datetime"

definition is_ascii :: "char \<Rightarrow> bool" where
  "is_ascii c = (of_char c < (128::nat))"

definition ascii_alpha :: "char \<Rightarrow> bool" where
  "ascii_alpha c = ((CHR ''a'' \<le> c \<and> c \<le> CHR ''z'') \<or> (CHR ''A'' \<le> c \<and> c \<le> CHR ''Z''))"

text \<open>\<^verbatim>\<open>urllib.parse.scheme_chars\<close>: letters, digits and \<^verbatim>\<open>+-.\<close>\<close>

definition scheme_char :: "char \<Rightarrow> bool" where
  "scheme_char c =
     (ascii_alpha c \<or> (CHR ''0'' \<le> c \<and> c \<le> CHR ''9'') \<or> c = CHR ''+'' \<or> c = CHR ''-'' \<or> c = CHR ''.'')"

definition ascii_lower :: "char \<Rightarrow> char" where
  "ascii_lower c = (if CHR ''A'' \<le> c \<and> c \<le> CHR ''Z'' then char_of (of_char c + (32::nat)) else c)"

text \<open>\<^verbatim>\<open>s.split(c, 1)\<close> for a string that contains \<open>c\<close>: the text before the first \<open>c\<close>
  and the text after it.\<close>

definition split_first :: "char \<Rightarrow> string \<Rightarrow> string \<times> string" where
  "split_first c s = (takeWhile (\<lambda>x. x \<noteq> c) s, drop 1 (dropWhile (\<lambda>x. x \<noteq> c) s))"

text \<open>\<^verbatim>\<open>s.split(c)\<close>: the pieces between the occurrences of \<open>c\<close>, empty ones included.\<close>

fun split_on :: "char \<Rightarrow> string \<Rightarrow> string list" where
  "split_on c [] = [[]]"
| "split_on c (x # xs) =
     (if x = c then [] # split_on c xs
      else (case split_on c xs of
              p # ps \<Rightarrow> (x # p) # ps
            | [] \<Rightarrow> [[x]]))"

record url_parts =
  url_scheme :: string
  url_netloc :: string
  url_path :: string
  url_params :: string
  url_query :: string
  url_fragment :: string

text \<open>\<^verbatim>\<open>urllib.parse.uses_params\<close>\<close>

definition uses_params :: "string list" where
  "uses_params = [[], ''ftp'', ''hdl'', ''prospero'', ''http'', ''imap'', ''https'', ''shttp'',
     ''rtsp'', ''rtsps'', ''rtspu'', ''sip'', ''sips'', ''mms'', ''sftp'', ''tel'']"

text \<open>\<^verbatim>\<open>_splitnetloc(url, 2)\<close>: the network location ends at the first of \<^verbatim>\<open>/?#\<close>.\<close>

definition netloc_char :: "char \<Rightarrow> bool" where
  "netloc_char c = (c \<noteq> CHR ''/'' \<and> c \<noteq> CHR ''?'' \<and> c \<noteq> CHR ''#'')"

definition splitnetloc :: "string \<Rightarrow> string \<times> string" where
  "splitnetloc url = (takeWhile netloc_char (drop 2 url), dropWhile netloc_char (drop 2 url))"

text \<open>
  \<^verbatim>\<open>urllib.parse.urlsplit\<close> (Python 3.11) with the default arguments: leading C0 controls
  and spaces are stripped, tab, CR and LF are removed everywhere, a scheme is split off
  when the text before the first colon starts with an ASCII letter and has scheme
  characters only, a network location follows \<^verbatim>\<open>//\<close>, then the fragment and the query are
  cut off.
\<close>

definition urlsplit :: "pylib \<Rightarrow> string \<Rightarrow> error + url_parts" where
  "urlsplit lib url0 =
     (let url1 = dropWhile (\<lambda>c. of_char c \<le> (32::nat)) url0;
          url2 = filter (\<lambda>c. c \<noteq> CHR 0x09 \<and> c \<noteq> CHR 0x0D \<and> c \<noteq> CHR 0x0A) url1;
          pre = takeWhile (\<lambda>c. c \<noteq> CHR '':'') url2;
          found = (CHR '':'' \<in> set url2 \<and>
                   (case url2 of c # _ \<Rightarrow> c \<noteq> CHR '':'' \<and> is_ascii c \<and> ascii_alpha c | [] \<Rightarrow> False) \<and>
                   list_all scheme_char pre);
          scheme = (if found then map ascii_lower pre else []);
          url3 = (if found then drop (length pre + 1) url2 else url2);
          has_netloc = (take 2 url3 = ''//'');
          netloc = (if has_netloc then fst (splitnetloc url3) else []);
          url4 = (if has_netloc then snd (splitnetloc url3) else url3);
          lb = (CHR ''['' \<in> set netloc);
          rb = (CHR '']'' \<in> set netloc)
      in
      if has_netloc \<and> ((lb \<and> \<not> rb) \<or> (rb \<and> \<not> lb)) then Inl (ValueError ''Invalid IPv6 URL'')
      else
        (case (if has_netloc \<and> lb \<and> rb then
                 check_bracketed_host lib
                   (takeWhile (\<lambda>c. c \<noteq> CHR '']'') (drop 1 (dropWhile (\<lambda>c. c \<noteq> CHR ''['') netloc)))
               else None) of
           Some e \<Rightarrow> Inl e
         | None \<Rightarrow>
             (let fragment = (if CHR ''#'' \<in> set url4 then snd (split_first CHR ''#'' url4) else []);
                  url5 = (if CHR ''#'' \<in> set url4 then fst (split_first CHR ''#'' url4) else url4);
                  query = (if CHR ''?'' \<in> set url5 then snd (split_first CHR ''?'' url5) else []);
                  url6 = (if CHR ''?'' \<in> set url5 then fst (split_first CHR ''?'' url5) else url5)
              in
              (case (if netloc = [] \<or> list_all is_ascii netloc then None
                     else checknetloc_nfkc lib netloc) of
                 Some e \<Rightarrow> Inl e
               | None \<Rightarrow>
                   Inr \<lparr>url_scheme = scheme, url_netloc = netloc, url_path = url6,
                        url_params = [], url_query = query, url_fragment = fragment\<rparr>))))"

text \<open>\<^verbatim>\<open>_splitparams\<close>, called on a path that contains a semicolon: the parameters start at
  the first semicolon of the last path segment.\<close>

definition splitparams :: "string \<Rightarrow> string \<times> string" where
  "splitparams url =
     (if CHR ''/'' \<in> set url then
        (let last_seg = rev (takeWhile (\<lambda>c. c \<noteq> CHR ''/'') (rev url));
             front = take (length url - length last_seg) url
         in if CHR '';'' \<in> set last_seg
            then (front @ fst (split_first CHR '';'' last_seg), snd (split_first CHR '';'' last_seg))
            else (url, []))
      else split_first CHR '';'' url)"

definition urlparse :: "pylib \<Rightarrow> string \<Rightarrow> error + url_parts" where
  "urlparse lib url =
     (case urlsplit lib url of
        Inl e \<Rightarrow> Inl e
      | Inr r \<Rightarrow>
          if url_scheme r \<in> set uses_params \<and> CHR '';'' \<in> set (url_path r)
          then Inr (r\<lparr>url_path := fst (splitparams (url_path r)),
                      url_params := snd (splitparams (url_path r))\<rparr>)
          else Inr r)"

subsection \<open>Project references\<close>

text \<open>\<^verbatim>\<open>[part for part in parsed.path.split("/") if part]\<close>\<close>

definition path_parts :: "string \<Rightarrow> string list" where
  "path_parts p = filter (\<lambda>part. part \<noteq> []) (split_on CHR ''/'' p)"

definition normalize_project_url :: "pylib \<Rightarrow> string \<Rightarrow> error + string" where
  "normalize_project_url lib url =
     (case urlparse lib url of
        Inl e \<Rightarrow> Inl e
      | Inr parsed \<Rightarrow>
          if url_scheme parsed \<noteq> ''http'' \<and> url_scheme parsed \<noteq> ''https'' then
            Inl (ValueError (''Invalid project URL: '' @ url))
          else if url_netloc parsed \<noteq> ''modrinth.com'' \<and> url_netloc parsed \<noteq> ''www.modrinth.com'' then
            Inl (ValueError (''Unsupported host in URL: '' @ url))
          else
            (case path_parts (url_path parsed) of
               [p0, p1] \<Rightarrow>
                 if p0 \<noteq> ''project'' then Inl (ValueError (''Invalid Modrinth project URL path: '' @ url))
                 else Inr (''https://modrinth.com/project/'' @ p1)
             | _ \<Rightarrow> Inl (ValueError (''Invalid Modrinth project URL path: '' @ url))))"

definition parse_project_id :: "pylib \<Rightarrow> string \<Rightarrow> error + string" where
  "parse_project_id lib url =
     (case urlparse lib url of
        Inl e \<Rightarrow> Inl e
      | Inr parsed \<Rightarrow>
          (case path_parts (url_path parsed) of
             [p0, p1] \<Rightarrow>
               if p0 \<noteq> ''project'' then Inl (ValueError (''Invalid Modrinth project URL path: '' @ url))
               else Inr p1
           | _ \<Rightarrow> Inl (ValueError (''Invalid Modrinth project URL path: '' @ url))))"

subsection \<open>The registry\<close>

text \<open>
  What one call of \<^verbatim>\<open>urlopen\<close>, the read of the body and \<^verbatim>\<open>json.loads\<close> end with: the
  decoded body, an \<^verbatim>\<open>HTTPError\<close> with its status code, a \<^verbatim>\<open>URLError\<close> with its text, or
  any other exception (a body that is no JSON, for one), which passes through unchanged.
\<close>

datatype response = Body json | HTTPError nat | URLError string | Failure error

text \<open>
  \<^verbatim>\<open>request_json\<close>: one call, no second attempt; the two error classes of \<^verbatim>\<open>urllib\<close>
  become \<^verbatim>\<open>RuntimeError\<close>.
\<close>

definition request_json :: "(string \<Rightarrow> response) \<Rightarrow> string \<Rightarrow> error + json" where
  "request_json urlopen url =
     (case urlopen url of
        Body data \<Rightarrow> Inr data
      | HTTPError code \<Rightarrow> Inl (RuntimeError (''Modrinth API returned '' @ str_of_nat code @ '' for '' @ url))
      | URLError text \<Rightarrow> Inl (RuntimeError (''Network error while requesting '' @ url @ '': '' @ text))
      | Failure e \<Rightarrow> Inl e)"

text \<open>
  The functions below take \<^verbatim>\<open>request_json\<close> with its network as one parameter \<open>rq\<close>, from
  the requested URL to the decoded body or the exception. The URLs requested so far are
  kept in a log, so that the number and the order of the calls can be stated.
\<close>

type_synonym registry = "string \<Rightarrow> error + json"

definition fetch_versions :: "registry \<Rightarrow> string \<Rightarrow> string list \<Rightarrow> string list \<times> (error + dict list)" where
  "fetch_versions rq project_id log =
     (let url = ''https://api.modrinth.com/v2/project/'' @ project_id @ ''/version'' in
      (log @ [url],
       (case rq url of
          Inl e \<Rightarrow> Inl e
        | Inr data \<Rightarrow>
            (case data of
               JList items \<Rightarrow> Inr (concat (map (\<lambda>item. case item of JObj d \<Rightarrow> [d] | _ \<Rightarrow> []) items))
             | _ \<Rightarrow> Inl (RuntimeError (''Unexpected versions response for project '' @ squote project_id))))))"

subsection \<open>Version selector\<close>

text \<open>\<^verbatim>\<open>filter_versions\<close>: \<open>filtered\<close> is the list built so far; each of the two tests ends
  the iteration with \<^verbatim>\<open>continue\<close>. \<^verbatim>\<open>x in xs\<close> on a list compares with \<^verbatim>\<open>==\<close>, and a
  string equals the string value only.\<close>

fun filter_versions_loop :: "dict list \<Rightarrow> dict list \<Rightarrow> string \<Rightarrow> string option \<Rightarrow> dict list" where
  "filter_versions_loop filtered [] minecraft loader = filtered"
| "filter_versions_loop filtered (version # versions) minecraft loader =
     (if (case dict_get version ''game_versions'' of
            JList game_versions \<Rightarrow> game_versions \<noteq> [] \<and> JStr minecraft \<notin> set game_versions
          | _ \<Rightarrow> False)
      then filter_versions_loop filtered versions minecraft loader
      else if (case loader of
                 Some l \<Rightarrow>
                   (case dict_get version ''loaders'' of
                      JList loaders \<Rightarrow> JStr l \<notin> set loaders
                    | _ \<Rightarrow> True)
               | None \<Rightarrow> False)
      then filter_versions_loop filtered versions minecraft loader
      else filter_versions_loop (filtered @ [version]) versions minecraft loader)"

definition filter_versions :: "dict list \<Rightarrow> string \<Rightarrow> string option \<Rightarrow> dict list" where
  "filter_versions versions minecraft loader = filter_versions_loop [] versions minecraft loader"

text \<open>\<^verbatim>\<open>ts.replace("Z", "+00:00")\<close> replaces every \<^verbatim>\<open>Z\<close>.\<close>

definition parse_timestamp :: "pylib \<Rightarrow> string \<Rightarrow> error + datetime" where
  "parse_timestamp lib ts =
     fromisoformat lib (concat (map (\<lambda>c. if c = CHR ''Z'' then ''+00:00'' else [c]) ts))"

definition version_sort_key :: "pylib \<Rightarrow> dict \<Rightarrow> error + datetime" where
  "version_sort_key lib version =
     parse_timestamp lib
       (fstr (py_str lib) (dict_get_default version ''date_published'' (JStr ''1970-01-01T00:00:00Z'')))"

text \<open>
  Sorting with a key, as \<^verbatim>\<open>list.sort\<close> and \<^verbatim>\<open>sorted\<close> do it: the key of every element is
  computed first, in list order, and the first exception ends the call. The sort is stable;
  with \<^verbatim>\<open>reverse=True\<close> the list is reversed, sorted and reversed again, so that elements
  with equal keys keep their order.
\<close>

fun sort_keys :: "('a \<Rightarrow> error + 'k) \<Rightarrow> 'a list \<Rightarrow> error + 'k list" where
  "sort_keys key [] = Inr []"
| "sort_keys key (x # xs) =
     (case key x of
        Inl e \<Rightarrow> Inl e
      | Inr k \<Rightarrow> (case sort_keys key xs of Inl e \<Rightarrow> Inl e | Inr ks \<Rightarrow> Inr (k # ks)))"

definition is_aware :: "datetime \<Rightarrow> bool" where
  "is_aware d = (case d of Aware _ \<Rightarrow> True | Naive _ \<Rightarrow> False)"

definition instant :: "datetime \<Rightarrow> int" where
  "instant d = (case d of Aware t \<Rightarrow> t | Naive t \<Rightarrow> t)"

text \<open>Keys of both kinds in one list make the first comparison between the kinds raise.\<close>

definition sorted_by_date_reverse :: "('a \<Rightarrow> error + datetime) \<Rightarrow> 'a list \<Rightarrow> error + 'a list" where
  "sorted_by_date_reverse key xs =
     (case sort_keys key xs of
        Inl e \<Rightarrow> Inl e
      | Inr ks \<Rightarrow>
          if list_ex is_aware ks \<and> list_ex (\<lambda>k. \<not> is_aware k) ks
          then Inl (TypeError ''can't compare offset-naive and offset-aware datetimes'')
          else Inr (map snd (rev (sort_key (\<lambda>p. instant (fst p)) (rev (zip ks xs))))))"

text \<open>\<^verbatim>\<open>xs[0]\<close>\<close>

definition index0 :: "'a list \<Rightarrow> error + 'a" where
  "index0 xs = (case xs of x # _ \<Rightarrow> Inr x | [] \<Rightarrow> Inl (IndexError ''list index out of range''))"

text \<open>\<^verbatim>\<open>select_version\<close>: the test \<^verbatim>\<open>if version_number:\<close> is false for \<^verbatim>\<open>None\<close> and for the
  empty string.\<close>

definition select_version :: "pylib \<Rightarrow> dict list \<Rightarrow> string option \<Rightarrow> error + dict" where
  "select_version lib versions version_number =
     (if versions = [] then Inl (ValueError ''No compatible versions found'')
      else if (case version_number of Some pin \<Rightarrow> pin \<noteq> [] | None \<Rightarrow> False) then
        (let pin = (case version_number of Some p \<Rightarrow> p | None \<Rightarrow> []);
             matched = filter (\<lambda>v. dict_get v ''version_number'' = JStr pin) versions
         in
         if matched = [] then
           Inl (ValueError (''No compatible version_number='' @ squote pin @ '' found''))
         else
           (case (if length matched > 1
                  then sorted_by_date_reverse (version_sort_key lib) matched
                  else Inr matched) of
              Inl e \<Rightarrow> Inl e
            | Inr matched_sorted \<Rightarrow> index0 matched_sorted))
      else
        (case sorted_by_date_reverse (version_sort_key lib) versions of
           Inl e \<Rightarrow> Inl e
         | Inr versions_sorted \<Rightarrow> index0 versions_sorted))"

subsection \<open>Lock entry builder\<close>

text \<open>\<^verbatim>\<open>f.get("primary") is True\<close> holds for the boolean \<^verbatim>\<open>True\<close> only.\<close>

definition is_primary :: "json \<Rightarrow> bool" where
  "is_primary f = (case f of JObj d \<Rightarrow> dict_get d ''primary'' = JBool True | _ \<Rightarrow> False)"

definition select_file :: "dict \<Rightarrow> error + dict" where
  "select_file version_data =
     (case dict_get version_data ''files'' of
        JList files \<Rightarrow>
          if files = [] then Inl (ValueError ''Selected Modrinth version has no files'')
          else
            (case filter is_primary files of
               JObj p # _ \<Rightarrow> Inr p
             | _ \<Rightarrow>
                 (case files of
                    JObj first # _ \<Rightarrow> Inr first
                  | _ \<Rightarrow> Inl (ValueError ''Invalid file object in version response'')))
      | _ \<Rightarrow> Inl (ValueError ''Selected Modrinth version has no files''))"

definition build_lock_entry :: "dict \<Rightarrow> string \<Rightarrow> error + dict" where
  "build_lock_entry file_obj side =
     (let filename = dict_get file_obj ''filename'';
          url = dict_get file_obj ''url'';
          size = dict_get file_obj ''size'';
          hashes = dict_get file_obj ''hashes''
      in
      if \<not> nonempty_str filename then Inl (ValueError ''Missing filename in Modrinth response'')
      else if \<not> nonempty_str url then Inl (ValueError ''Missing download URL in Modrinth response'')
      else if \<not> is_int size \<or> int_val size \<le> 0 then
        Inl (ValueError ''Missing/invalid file size in Modrinth response'')
      else
        (case hashes of
           JObj h \<Rightarrow>
             (let sha1 = dict_get h ''sha1'';
                  sha512 = dict_get h ''sha512'';
                  out_hashes =
                    (if nonempty_str sha1 then [(''sha1'', sha1)] else []) @
                    (if nonempty_str sha512 then [(''sha512'', sha512)] else [])
              in
              if out_hashes = [] then Inl (ValueError ''No sha1/sha512 hash provided by Modrinth'')
              else
                Inr [(''filename'', filename),
                     (''side'', JStr side),
                     (''downloads'', JList [url]),
                     (''hashes'', JObj out_hashes),
                     (''fileSize'', size)])
         | _ \<Rightarrow> Inl (ValueError ''Missing hashes in Modrinth response'')))"

subsection \<open>Resolution of a category\<close>

text \<open>A project reference as \<^verbatim>\<open>collect_entries\<close> builds it: the keys \<^verbatim>\<open>url\<close> and \<^verbatim>\<open>side\<close>
  are always there, \<^verbatim>\<open>name\<close> and \<^verbatim>\<open>version\<close> are optional.\<close>

record project_ref =
  ref_url :: string
  ref_side :: string
  ref_name :: "string option"
  ref_version :: "string option"

text \<open>
  The loop of \<^verbatim>\<open>resolve_entries\<close>: \<open>resolved\<close> and \<open>seen_filenames\<close> are the two
  accumulators, \<open>log\<close> the requests made so far. Every exception leaves the loop at once.
  The console output is not modelled.
\<close>

fun resolve_entries_loop ::
  "registry \<Rightarrow> pylib \<Rightarrow> string \<Rightarrow> string \<Rightarrow> string \<Rightarrow> bool \<Rightarrow>
   dict list \<Rightarrow> json set \<Rightarrow> project_ref list \<Rightarrow> string list \<Rightarrow> string list \<times> (error + dict list)" where
  "resolve_entries_loop rq lib minecraft loader label require_loader resolved seen_filenames [] log =
     (log, Inr resolved)"
| "resolve_entries_loop rq lib minecraft loader label require_loader resolved seen_filenames
     (entry # entries) log =
     (case parse_project_id lib (ref_url entry) of
        Inl e \<Rightarrow> (log, Inl e)
      | Inr project_id \<Rightarrow>
     (case fetch_versions rq project_id log of
        (log', Inl e) \<Rightarrow> (log', Inl e)
      | (log', Inr versions) \<Rightarrow>
     (case select_version lib
             (filter_versions versions minecraft (if require_loader then Some loader else None))
             (ref_version entry) of
        Inl e \<Rightarrow> (log', Inl e)
      | Inr selected_version \<Rightarrow>
     (case select_file selected_version of
        Inl e \<Rightarrow> (log', Inl e)
      | Inr selected_file \<Rightarrow>
     (case build_lock_entry selected_file (ref_side entry) of
        Inl e \<Rightarrow> (log', Inl e)
      | Inr lock_entry \<Rightarrow>
     (case subscript (JObj lock_entry) ''filename'' of
        Inl e \<Rightarrow> (log', Inl e)
      | Inr filename \<Rightarrow>
          if unhashable filename then
            (log', Inl (TypeError (''unhashable type: '' @ squote (type_name filename))))
          else if filename \<in> seen_filenames then
            (log', Inl (ValueError (''Duplicate resolved filename '' @ squote (fstr (py_str lib) filename) @
                                    '' in '' @ label @ ''; this is ambiguous'')))
          else
            resolve_entries_loop rq lib minecraft loader label require_loader
              (resolved @ [lock_entry]) (insert filename seen_filenames) entries log'))))))"

text \<open>The key of the final sort, \<^verbatim>\<open>x["filename"].lower()\<close>.\<close>

definition filename_lower :: "pylib \<Rightarrow> dict \<Rightarrow> error + string" where
  "filename_lower lib x =
     (case subscript (JObj x) ''filename'' of
        Inl e \<Rightarrow> Inl e
      | Inr v \<Rightarrow>
          (case v of
             JStr s \<Rightarrow> Inr (str_lower lib s)
           | _ \<Rightarrow> Inl (AttributeError (squote (type_name v) @ '' object has no attribute '' @ squote ''lower''))))"

definition sort_by_filename :: "pylib \<Rightarrow> dict list \<Rightarrow> error + dict list" where
  "sort_by_filename lib resolved =
     (case sort_keys (filename_lower lib) resolved of
        Inl e \<Rightarrow> Inl e
      | Inr ks \<Rightarrow> Inr (map snd (sort_key fst (zip ks resolved))))"

definition resolve_entries ::
  "registry \<Rightarrow> pylib \<Rightarrow> project_ref list \<Rightarrow> string \<Rightarrow> string \<Rightarrow> string \<Rightarrow> bool \<Rightarrow>
   string list \<Rightarrow> string list \<times> (error + dict list)" where
  "resolve_entries rq lib entries minecraft loader label require_loader log =
     (case resolve_entries_loop rq lib minecraft loader label require_loader [] {} entries log of
        (log', Inl e) \<Rightarrow> (log', Inl e)
      | (log', Inr resolved) \<Rightarrow> (log', sort_by_filename lib resolved))"

subsection \<open>The run\<close>

text \<open>
  The command line after \<^verbatim>\<open>parse_args\<close>, and the part of the world a run changes: the
  files it writes, as path and written value (\<^verbatim>\<open>json.dump\<close> of a value it can always
  encode), and the requests it sends. Errors of the file system are not modelled.
\<close>

record args =
  arg_template_out :: string
  arg_mods_lock :: string
  arg_resource_packs_lock :: string
  arg_shader_packs_lock :: string
  arg_target :: string
  arg_check :: bool

record world =
  fs_files :: "string \<Rightarrow> json option"
  net_requests :: "string list"

definition write_json :: "string \<Rightarrow> json \<Rightarrow> world \<Rightarrow> world" where
  "write_json path data w = w\<lparr>fs_files := (fs_files w)(path \<mapsto> data)\<rparr>"

text \<open>The declaration after \<^verbatim>\<open>parse_template\<close> and \<^verbatim>\<open>collect_entries\<close>: the template, the
  game version, the loader and the references of the three categories.\<close>

record pack_declaration =
  decl_template :: dict
  decl_minecraft :: string
  decl_loader :: string
  decl_mods :: "project_ref list"
  decl_resource_packs :: "project_ref list"
  decl_shader_packs :: "project_ref list"

text \<open>The dictionary \<^verbatim>\<open>locks\<close>: the references and the lock path of a category.\<close>

definition locks :: "args \<Rightarrow> pack_declaration \<Rightarrow> string \<Rightarrow> project_ref list \<times> string" where
  "locks a d target =
     (if target = ''mods'' then (decl_mods d, arg_mods_lock a)
      else if target = ''resourcepacks'' then (decl_resource_packs d, arg_resource_packs_lock a)
      else (decl_shader_packs d, arg_shader_packs_lock a))"

text \<open>The loop \<^verbatim>\<open>for target in ("mods", "resourcepacks", "shaderpacks")\<close> of \<^verbatim>\<open>main\<close>; the
  fourth argument is what is left of the tuple.\<close>

fun main_loop ::
  "registry \<Rightarrow> pylib \<Rightarrow> args \<Rightarrow> pack_declaration \<Rightarrow> string list \<Rightarrow> string list \<Rightarrow> world \<Rightarrow> world \<times> (error + int)" where
  "main_loop rq lib a d targets [] w = (w, Inr 0)"
| "main_loop rq lib a d targets (target # rest) w =
     (if target \<notin> set targets then main_loop rq lib a d targets rest w
      else
        (case locks a d target of
           (entries, lock_path) \<Rightarrow>
        (case resolve_entries rq lib entries (decl_minecraft d) (decl_loader d) target
                (target = ''mods'') (net_requests w) of
           (log, Inl e) \<Rightarrow> (w\<lparr>net_requests := log\<rparr>, Inl e)
         | (log, Inr resolved) \<Rightarrow>
             if arg_check a then main_loop rq lib a d targets rest (w\<lparr>net_requests := log\<rparr>)
             else main_loop rq lib a d targets rest
                    (write_json lock_path (JList (map JObj resolved)) (w\<lparr>net_requests := log\<rparr>)))))"

text \<open>\<^verbatim>\<open>main\<close> from the choice of the targets on: the template first, then the three
  categories in their fixed order.\<close>

definition main :: "registry \<Rightarrow> pylib \<Rightarrow> args \<Rightarrow> pack_declaration \<Rightarrow> world \<Rightarrow> world \<times> (error + int)" where
  "main rq lib a d w =
     (let targets = (if arg_target a = ''all''
                     then [''template'', ''mods'', ''resourcepacks'', ''shaderpacks'']
                     else [arg_target a]);
          w1 = (if ''template'' \<in> set targets \<and> \<not> arg_check a
                then write_json (arg_template_out a) (JObj (decl_template d)) w
                else w)
      in main_loop rq lib a d targets [''mods'', ''resourcepacks'', ''shaderpacks''] w1)"

subsection \<open>Vocabulary for the properties of the package assembler\<close>

text \<open>A lock entry as packaging receives it after validation: an object with the five
  fields of a lock manifest entry.\<close>

definition has_lock_fields :: "json \<Rightarrow> bool" where
  "has_lock_fields entry =
     (case entry of
        JObj d \<Rightarrow> list_all (\<lambda>k. map_of d k \<noteq> None)
                   [''filename'', ''side'', ''hashes'', ''downloads'', ''fileSize'']
      | _ \<Rightarrow> False)"

definition field :: "json \<Rightarrow> string \<Rightarrow> json" where
  "field x k = (case x of JObj d \<Rightarrow> dict_get d k | _ \<Rightarrow> JNull)"

text \<open>The spec's side filter: the declared side is \<open>both\<close> or equals the target side.\<close>

definition side_included :: "string \<Rightarrow> json \<Rightarrow> bool" where
  "side_included target entry =
     (field entry ''side'' = JStr ''both'' \<or> field entry ''side'' = JStr target)"

text \<open>The files-array element that belongs to a lock entry.\<close>

definition index_file :: "(json \<Rightarrow> string) \<Rightarrow> string \<Rightarrow> json \<Rightarrow> json" where
  "index_file fmt path_prefix entry =
     JObj [(''path'', JStr (path_prefix @ ''/'' @ fstr fmt (field entry ''filename''))),
           (''hashes'', field entry ''hashes''),
           (''downloads'', field entry ''downloads''),
           (''fileSize'', field entry ''fileSize''),
           (''env'', JObj (env_for_side (field entry ''side'')))]"

subsection \<open>Vocabulary for the properties of resolution\<close>





text \<open>What the packaging side requires of a lock entry.\<close>

definition entry_valid :: "json \<Rightarrow> bool" where
  "entry_valid entry =
     (case entry of
        JObj d \<Rightarrow>
          nonempty_str (dict_get d ''filename'') \<and>
          (case dict_get d ''side'' of JStr s \<Rightarrow> s \<in> VALID_SIDES | _ \<Rightarrow> False) \<and>
          (case dict_get d ''downloads'' of JList us \<Rightarrow> us \<noteq> [] \<and> list_all nonempty_str us | _ \<Rightarrow> False) \<and>
          (case dict_get d ''hashes'' of
             JObj h \<Rightarrow> map_of h ''sha1'' \<noteq> None \<or> map_of h ''sha512'' \<noteq> None
           | _ \<Rightarrow> False) \<and>
          is_int (dict_get d ''fileSize'') \<and> 0 < int_val (dict_get d ''fileSize'')
      | _ \<Rightarrow> False)"

text \<open>The hash fields that \<^verbatim>\<open>build_lock_entry\<close> keeps.\<close>

definition kept_hashes :: "dict \<Rightarrow> dict" where
  "kept_hashes h =
     (if nonempty_str (dict_get h ''sha1'') then [(''sha1'', dict_get h ''sha1'')] else []) @
     (if nonempty_str (dict_get h ''sha512'') then [(''sha512'', dict_get h ''sha512'')] else [])"

text \<open>The text of the field \<^verbatim>\<open>date_published\<close> of a version, when the version has the
  field and the field is a string.\<close>

definition date_published :: "dict \<Rightarrow> string option" where
  "date_published v = (case map_of v ''date_published'' of Some (JStr ts) \<Rightarrow> Some ts | _ \<Rightarrow> None)"

text \<open>The registry writes the offset of UTC as \<^verbatim>\<open>Z\<close>; the parser of the library is given
  \<^verbatim>\<open>+00:00\<close> in its place.\<close>

fun utc_offset :: "string \<Rightarrow> string" where
  "utc_offset [] = []"
| "utc_offset (c # cs) = (if c = CHR ''Z'' then ''+00:00'' @ utc_offset cs else c # utc_offset cs)"

text \<open>The parsed publish timestamp of a version: what \<^verbatim>\<open>fromisoformat\<close> reads from the
  text of its field \<^verbatim>\<open>date_published\<close>, if the field is a string and the parser accepts it.\<close>

definition published :: "pylib \<Rightarrow> dict \<Rightarrow> datetime option" where
  "published lib v =
     (case date_published v of
        Some ts \<Rightarrow> (case fromisoformat lib (utc_offset ts) of Inr d \<Rightarrow> Some d | Inl _ \<Rightarrow> None)
      | None \<Rightarrow> None)"

text \<open>The publish instant of a version with a parsed publish timestamp.\<close>

definition published_at :: "pylib \<Rightarrow> dict \<Rightarrow> int" where
  "published_at lib v = (case published lib v of Some d \<Rightarrow> instant d | None \<Rightarrow> 0)"

text \<open>Every version of the list has a \<^verbatim>\<open>date_published\<close> string that parses, and all the
  parsed timestamps are aware or all are naive: the timestamps of a well-formed registry
  answer.\<close>

definition timestamps_ok :: "pylib \<Rightarrow> dict list \<Rightarrow> bool" where
  "timestamps_ok lib vs =
     (list_all (\<lambda>v. case published lib v of Some (Aware _) \<Rightarrow> True | _ \<Rightarrow> False) vs \<or>
      list_all (\<lambda>v. case published lib v of Some (Naive _) \<Rightarrow> True | _ \<Rightarrow> False) vs)"

text \<open>A version whose \<^verbatim>\<open>date_published\<close> string the parser rejects.\<close>

definition unparsable :: "pylib \<Rightarrow> dict \<Rightarrow> bool" where
  "unparsable lib v =
     (case date_published v of
        Some ts \<Rightarrow> (case fromisoformat lib (utc_offset ts) of Inl _ \<Rightarrow> True | Inr _ \<Rightarrow> False)
      | None \<Rightarrow> False)"

text \<open>The versions a selection chooses from: those with the pinned version number, or all.\<close>

definition candidates :: "string option \<Rightarrow> dict list \<Rightarrow> dict list" where
  "candidates pin versions =
     (case pin of
        Some p \<Rightarrow> filter (\<lambda>v. dict_get v ''version_number'' = JStr p) versions
      | None \<Rightarrow> versions)"

text \<open>Position \<open>i\<close> holds the most recent element, and the earliest such in list order: no
  element is later, and every element before \<open>i\<close> is strictly earlier.\<close>

definition latest_at :: "('a \<Rightarrow> int) \<Rightarrow> 'a list \<Rightarrow> nat \<Rightarrow> bool" where
  "latest_at t xs i =
     (i < length xs \<and> list_all (\<lambda>x. t x \<le> t (xs ! i)) xs \<and> list_all (\<lambda>x. t x < t (xs ! i)) (take i xs))"

text \<open>A stand-in for the library in the examples below: no netloc is rejected, lowering is
  the ASCII one, and three timestamps parse.\<close>

definition lib_example :: pylib where
  "lib_example =
     \<lparr>check_bracketed_host = (\<lambda>h. None),
      checknetloc_nfkc = (\<lambda>n. None),
      py_str = (\<lambda>v. ''?''),
      str_lower = map ascii_lower,
      fromisoformat =
        (\<lambda>s. if s = ''1970-01-01T00:00:00+00:00'' then Inr (Aware 0)
             else if s = ''2024-01-01T00:00:00+00:00'' then Inr (Aware 1704067200000000)
             else if s = ''2024-06-01T00:00:00+00:00'' then Inr (Aware 1717200000000000)
             else Inl (ValueError (''Invalid isoformat string: '' @ squote s)))\<rparr>"

text \<open>The parsed timestamp of a version, for the proofs about sorting.\<close>

definition date_of :: "pylib \<Rightarrow> dict \<Rightarrow> datetime" where
  "date_of lib v = (case published lib v of Some d \<Rightarrow> d | None \<Rightarrow> Aware 0)"

text \<open>Three versions of a registry answer: \<open>version_b\<close> and \<open>version_c\<close> share the version
  number and the publish time.\<close>

definition version_a :: dict where
  "version_a = [(''version_number'', JStr ''1.0''), (''date_published'', JStr ''2024-01-01T00:00:00Z'')]"

definition version_b :: dict where
  "version_b = [(''version_number'', JStr ''2.0''), (''date_published'', JStr ''2024-06-01T00:00:00Z''),
                (''id'', JStr ''b'')]"

definition version_c :: dict where
  "version_c = [(''version_number'', JStr ''2.0''), (''date_published'', JStr ''2024-06-01T00:00:00Z''),
                (''id'', JStr ''c'')]"

text \<open>A version with a publish timestamp that is no date.\<close>

definition version_bad :: dict where
  "version_bad = [(''version_number'', JStr ''2.1''), (''date_published'', JStr ''garbage'')]"

text \<open>The request that the reference of a project id sends.\<close>

definition api_url :: "string \<Rightarrow> string" where
  "api_url project_id = ''https://api.modrinth.com/v2/project/'' @ project_id @ ''/version''"

text \<open>The requests one reference causes: none when its URL has no project id, one
  otherwise.\<close>

definition requests_of :: "pylib \<Rightarrow> project_ref \<Rightarrow> string list" where
  "requests_of lib entry =
     (case parse_project_id lib (ref_url entry) of Inl _ \<Rightarrow> [] | Inr project_id \<Rightarrow> [api_url project_id])"

text \<open>The lock entry of one reference taken alone: project id, versions, filter, selection,
  file, entry. \<open>loader\<close> is the loader to filter by, if any.\<close>

definition lock_entry_of ::
  "registry \<Rightarrow> pylib \<Rightarrow> string \<Rightarrow> string option \<Rightarrow> project_ref \<Rightarrow> error + dict" where
  "lock_entry_of rq lib minecraft loader entry =
     (case parse_project_id lib (ref_url entry) of
        Inl e \<Rightarrow> Inl e
      | Inr project_id \<Rightarrow>
     (case snd (fetch_versions rq project_id []) of
        Inl e \<Rightarrow> Inl e
      | Inr versions \<Rightarrow>
     (case select_version lib (filter_versions versions minecraft loader) (ref_version entry) of
        Inl e \<Rightarrow> Inl e
      | Inr selected_version \<Rightarrow>
     (case select_file selected_version of
        Inl e \<Rightarrow> Inl e
      | Inr selected_file \<Rightarrow> build_lock_entry selected_file (ref_side entry)))))"

text \<open>The file name of a lock entry, as a value and as a string.\<close>

definition filename_of :: "dict \<Rightarrow> json" where
  "filename_of entry = dict_get entry ''filename''"

definition filename_str :: "dict \<Rightarrow> string" where
  "filename_str entry = (case dict_get entry ''filename'' of JStr s \<Rightarrow> s | _ \<Rightarrow> [])"

text \<open>The error of a file name collision in the category \<open>label\<close>.\<close>

definition duplicate_error :: "string \<Rightarrow> string \<Rightarrow> error" where
  "duplicate_error label name =
     ValueError (''Duplicate resolved filename '' @ squote name @ '' in '' @ label @ ''; this is ambiguous'')"

text \<open>
  An example registry. The projects \<open>alpha\<close> and \<open>beta\<close> both ship \<open>shared.jar\<close>,
  \<open>gamma\<close> ships \<open>Gamma.jar\<close> and \<open>delta\<close> ships \<open>gamma.jar\<close>; every other request
  fails.
\<close>

definition example_versions :: "string \<Rightarrow> json" where
  "example_versions name =
     JList [JObj [(''version_number'', JStr ''1.0''),
                  (''game_versions'', JList [JStr ''1.20.1'']),
                  (''loaders'', JList [JStr ''fabric'']),
                  (''date_published'', JStr ''2024-01-01T00:00:00Z''),
                  (''files'', JList [JObj [(''filename'', JStr name),
                                           (''url'', JStr (''https://cdn.example/'' @ name)),
                                           (''size'', JInt 12345),
                                           (''hashes'', JObj [(''sha512'', JStr ''abc'')]),
                                           (''primary'', JBool True)]])]]"

definition network_example :: "string \<Rightarrow> response" where
  "network_example url =
     (if url = ''https://api.modrinth.com/v2/project/alpha/version'' then Body (example_versions ''shared.jar'')
      else if url = ''https://api.modrinth.com/v2/project/beta/version'' then Body (example_versions ''shared.jar'')
      else if url = ''https://api.modrinth.com/v2/project/gamma/version'' then Body (example_versions ''Gamma.jar'')
      else if url = ''https://api.modrinth.com/v2/project/delta/version'' then Body (example_versions ''gamma.jar'')
      else HTTPError 404)"

definition registry_example :: registry where
  "registry_example = request_json network_example"

definition example_ref :: "string \<Rightarrow> project_ref" where
  "example_ref project_id =
     \<lparr>ref_url = ''https://modrinth.com/project/'' @ project_id, ref_side = ''both'',
      ref_name = None, ref_version = None\<rparr>"

text \<open>The lock entry of the example registry for a file name.\<close>

definition example_lock :: "string \<Rightarrow> dict" where
  "example_lock name =
     [(''filename'', JStr name),
      (''side'', JStr ''both''),
      (''downloads'', JList [JStr (''https://cdn.example/'' @ name)]),
      (''hashes'', JObj [(''sha512'', JStr ''abc'')]),
      (''fileSize'', JInt 12345)]"

text \<open>A second registry that differs from the example at the project \<open>alpha\<close> only.\<close>

definition registry_example2 :: registry where
  "registry_example2 url =
     (if url = ''https://api.modrinth.com/v2/project/alpha/version''
      then Inl (RuntimeError (''Modrinth API returned 503 for '' @ url))
      else registry_example url)"

subsection \<open>Vocabulary for the properties of a run\<close>

text \<open>The targets a command line selects, and the world after the template step.\<close>

definition targets_of :: "args \<Rightarrow> string list" where
  "targets_of a =
     (if arg_target a = ''all'' then [''template'', ''mods'', ''resourcepacks'', ''shaderpacks'']
      else [arg_target a])"

definition after_template :: "args \<Rightarrow> pack_declaration \<Rightarrow> world \<Rightarrow> world" where
  "after_template a d w =
     (if ''template'' \<in> set (targets_of a) \<and> \<not> arg_check a
      then write_json (arg_template_out a) (JObj (decl_template d)) w
      else w)"

text \<open>The resolution of one category as \<^verbatim>\<open>main\<close> calls it, from a given request log.\<close>

definition resolve_category ::
  "registry \<Rightarrow> pylib \<Rightarrow> args \<Rightarrow> pack_declaration \<Rightarrow> string \<Rightarrow> string list \<Rightarrow>
   string list \<times> (error + dict list)" where
  "resolve_category rq lib a d target log =
     resolve_entries rq lib (fst (locks a d target)) (decl_minecraft d) (decl_loader d) target
       (target = ''mods'') log"


text \<open>An example run: one mod that resolves, one resource pack whose project the registry
  does not know, no shader pack, and nothing on disk.\<close>

definition args_example :: args where
  "args_example =
     \<lparr>arg_template_out = ''modpack/pack.template.json'',
      arg_mods_lock = ''modpack/mods.lock.json'',
      arg_resource_packs_lock = ''modpack/resource-packs.lock.json'',
      arg_shader_packs_lock = ''modpack/shader-packs.lock.json'',
      arg_target = ''all'',
      arg_check = False\<rparr>"

definition decl_example :: pack_declaration where
  "decl_example =
     \<lparr>decl_template = [(''formatVersion'', JInt 1), (''game'', JStr ''minecraft''), (''name'', JStr ''Pack''),
                       (''summary'', JStr ''A pack''), (''versionId'', JStr ''dev''),
                       (''dependencies'', JObj [(''minecraft'', JStr ''1.20.1''), (''fabric'', JStr ''0.15.0'')])],
      decl_minecraft = ''1.20.1'',
      decl_loader = ''fabric'',
      decl_mods = [example_ref ''gamma''],
      decl_resource_packs = [example_ref ''zeta''],
      decl_shader_packs = []\<rparr>"

definition world_empty :: world where
  "world_empty = \<lparr>fs_files = (\<lambda>path. None), net_requests = []\<rparr>"

section \<open>Properties\<close>

subsection \<open>Side filtering and environment tags\<close>

lemma has_lock_fields_subscript:
  assumes "has_lock_fields entry"
    and "k \<in> set [''filename'', ''side'', ''hashes'', ''downloads'', ''fileSize'']"
  shows "subscript entry k = Inr (field entry k)"
  using assms
  by (auto simp: has_lock_fields_def subscript_def field_def dict_get_def split: json.splits)

lemma build_files_loop_filter:
  assumes "list_all has_lock_fields entries"
  shows "build_files_loop fmt files entries target path_prefix =
         Inr (files @ map (index_file fmt path_prefix) (filter (side_included target) entries))"
  using assms
proof (induction entries arbitrary: files)
  case Nil
  then show ?case by simp
next
  case (Cons entry entries)
  then have f: "has_lock_fields entry" and r: "list_all has_lock_fields entries"
    by simp_all
  have s: "\<And>k. k \<in> set [''filename'', ''side'', ''hashes'', ''downloads'', ''fileSize''] \<Longrightarrow>
             subscript entry k = Inr (field entry k)"
    using has_lock_fields_subscript [OF f] by blast
  show ?case
  proof (cases "side_included target entry")
    case True
    then show ?thesis
      using Cons.IH [OF r] s by (simp add: side_included_def index_file_def)
  next
    case False
    then show ?thesis
      using Cons.IH [OF r] s by (simp add: side_included_def)
  qed
qed

text \<open>
  C1. For every list of lock entries and every target side, the files array holds, in
  manifest order, exactly the entries whose side is \<open>both\<close> or the target side, and the
  \<open>env\<close> tag of a file is decided by the side of its entry alone: client gives
  required/unsupported, server gives unsupported/required, and anything else (so
  \<open>both\<close>) gives required/required, whichever side is packaged.
\<close>

theorem build_files_side_filter:
  assumes "list_all has_lock_fields entries"
  shows "build_files fmt entries target path_prefix =
           Inr (map (index_file fmt path_prefix) (filter (side_included target) entries))
       \<and> (\<forall>entry. field (index_file fmt path_prefix entry) ''env'' =
            (if field entry ''side'' = JStr ''client'' then
               JObj [(''client'', JStr ''required''), (''server'', JStr ''unsupported'')]
             else if field entry ''side'' = JStr ''server'' then
               JObj [(''client'', JStr ''unsupported''), (''server'', JStr ''required'')]
             else
               JObj [(''client'', JStr ''required''), (''server'', JStr ''required'')]))"
  using build_files_loop_filter [OF assms, of fmt "[]" target path_prefix]
  by (simp add: build_files_def index_file_def field_def dict_get_def env_for_side_def)

theorem build_files_side_filter_witness:
  "list_all has_lock_fields
     [JObj [(''filename'', JStr ''a.jar''), (''side'', JStr ''client''), (''downloads'', JList [JStr ''u'']),
            (''hashes'', JObj [(''sha1'', JStr ''x'')]), (''fileSize'', JInt 1)],
      JObj [(''filename'', JStr ''b.jar''), (''side'', JStr ''both''), (''downloads'', JList [JStr ''v'']),
            (''hashes'', JObj [(''sha1'', JStr ''y'')]), (''fileSize'', JInt 2)]]
   \<and> build_files (\<lambda>v. []) 
     [JObj [(''filename'', JStr ''a.jar''), (''side'', JStr ''client''), (''downloads'', JList [JStr ''u'']),
            (''hashes'', JObj [(''sha1'', JStr ''x'')]), (''fileSize'', JInt 1)],
      JObj [(''filename'', JStr ''b.jar''), (''side'', JStr ''both''), (''downloads'', JList [JStr ''v'']),
            (''hashes'', JObj [(''sha1'', JStr ''y'')]), (''fileSize'', JInt 2)]]
     ''server'' ''mods''
   = Inr [JObj [(''path'', JStr ''mods/b.jar''), (''hashes'', JObj [(''sha1'', JStr ''y'')]),
                (''downloads'', JList [JStr ''v'']), (''fileSize'', JInt 2),
                (''env'', JObj [(''client'', JStr ''required''), (''server'', JStr ''required'')])]]"
proof -
  have h: "list_all has_lock_fields
     [JObj [(''filename'', JStr ''a.jar''), (''side'', JStr ''client''), (''downloads'', JList [JStr ''u'']),
            (''hashes'', JObj [(''sha1'', JStr ''x'')]), (''fileSize'', JInt 1)],
      JObj [(''filename'', JStr ''b.jar''), (''side'', JStr ''both''), (''downloads'', JList [JStr ''v'']),
            (''hashes'', JObj [(''sha1'', JStr ''y'')]), (''fileSize'', JInt 2)]]"
    by (simp add: has_lock_fields_def)
  show ?thesis
    using h build_files_side_filter [OF h, of "\<lambda>v. []" "''server''" "''mods''"]
    by (simp add: side_included_def index_file_def field_def dict_get_def env_for_side_def fstr_def)
qed

subsection \<open>Version filter\<close>



subsection \<open>Selection from an empty list\<close>

text \<open>
  C6. Whatever the pin is (absent, empty or a version number), selecting from an empty
  list of versions raises the error ``No compatible versions found''.
\<close>

theorem select_version_empty:
  "select_version lib [] version_number = Inl (ValueError ''No compatible versions found'')"
  by (simp add: select_version_def)

subsection \<open>Lock entries and the packaging validator\<close>

lemma validate_entries_loop_valid:
  "list_all entry_valid es \<Longrightarrow> validate_entries_loop nm i es = None"
proof (induction es arbitrary: i)
  case Nil
  then show ?case by simp
next
  case (Cons e es)
  then have v: "entry_valid e" and r: "list_all entry_valid es" by simp_all
  from v obtain d where d: "e = JObj d" by (cases e) (simp_all add: entry_valid_def)
  from v d have h: "\<not> unhashable (dict_get d ''side'')"
    by (cases "dict_get d ''side''") (simp_all add: entry_valid_def unhashable_def)
  from v d h show ?case
    by (simp add: entry_valid_def Cons.IH [OF r] Let_def)
qed

lemma validate_entries_loop_None:
  "validate_entries_loop nm i es = None \<Longrightarrow> list_all entry_valid es"
proof (induction es arbitrary: i)
  case Nil
  then show ?case by simp
next
  case (Cons e es)
  then show ?case
    by (cases e) (auto simp: entry_valid_def Let_def split: if_splits)
qed

lemma build_lock_entry_Inr:
  assumes "build_lock_entry file_obj side = Inr e"
  shows "\<exists>h. dict_get file_obj ''hashes'' = JObj h \<and> kept_hashes h \<noteq> [] \<and>
             nonempty_str (dict_get file_obj ''filename'') \<and>
             nonempty_str (dict_get file_obj ''url'') \<and>
             is_int (dict_get file_obj ''size'') \<and> 0 < int_val (dict_get file_obj ''size'') \<and>
             e = [(''filename'', dict_get file_obj ''filename''),
                  (''side'', JStr side),
                  (''downloads'', JList [dict_get file_obj ''url'']),
                  (''hashes'', JObj (kept_hashes h)),
                  (''fileSize'', dict_get file_obj ''size'')]"
proof -
  have a: "nonempty_str (dict_get file_obj ''filename'')"
    using assms by (simp add: build_lock_entry_def Let_def split: if_splits)
  have b: "nonempty_str (dict_get file_obj ''url'')"
    using assms a by (simp add: build_lock_entry_def Let_def split: if_splits)
  have c: "is_int (dict_get file_obj ''size'') \<and> 0 < int_val (dict_get file_obj ''size'')"
    using assms a b by (simp add: build_lock_entry_def Let_def split: if_splits)
  obtain h where h: "dict_get file_obj ''hashes'' = JObj h"
    using assms a b c by (cases "dict_get file_obj ''hashes''") (simp_all add: build_lock_entry_def Let_def)
  have d: "kept_hashes h \<noteq> []"
  proof
    assume "kept_hashes h = []"
    then show False
      using assms a b c h by (simp add: build_lock_entry_def Let_def kept_hashes_def)
  qed
  have "e = [(''filename'', dict_get file_obj ''filename''),
                  (''side'', JStr side),
                  (''downloads'', JList [dict_get file_obj ''url'']),
                  (''hashes'', JObj (kept_hashes h)),
                  (''fileSize'', dict_get file_obj ''size'')]"
    using assms a b c h d
    by (simp add: build_lock_entry_def Let_def kept_hashes_def split: if_splits)
  with a b c h d show ?thesis by blast
qed

lemma kept_hashes_keys:
  "kept_hashes h \<noteq> [] \<Longrightarrow> map_of (kept_hashes h) ''sha1'' \<noteq> None \<or> map_of (kept_hashes h) ''sha512'' \<noteq> None"
  by (simp add: kept_hashes_def split: if_splits)

lemma build_lock_entry_valid:
  assumes "build_lock_entry file_obj side = Inr e" and "side \<in> VALID_SIDES"
  shows "entry_valid (JObj e)"
proof -
  from build_lock_entry_Inr [OF assms(1)] obtain h where
    h: "kept_hashes h \<noteq> []" and
    f: "nonempty_str (dict_get file_obj ''filename'')" and
    u: "nonempty_str (dict_get file_obj ''url'')" and
    s: "is_int (dict_get file_obj ''size'')" "0 < int_val (dict_get file_obj ''size'')" and
    e: "e = [(''filename'', dict_get file_obj ''filename''),
                  (''side'', JStr side),
                  (''downloads'', JList [dict_get file_obj ''url'']),
                  (''hashes'', JObj (kept_hashes h)),
                  (''fileSize'', dict_get file_obj ''size'')]"
    by blast
  show ?thesis
    unfolding e entry_valid_def using f u s assms(2) kept_hashes_keys [OF h]
    by (simp add: dict_get_def)
qed

subsection \<open>Selection by recency\<close>

lemma last_insort_key:
  "last (insort_key t x ys) = (if \<forall>y\<in>set ys. t y < t x then x else last ys)"
proof (induction ys)
  case Nil
  then show ?case by simp
next
  case (Cons y ys)
  show ?case
  proof (cases "t x \<le> t y")
    case True
    then show ?thesis by auto
  next
    case False
    have ne: "insort_key t x ys \<noteq> []" by (cases ys) auto
    from False ne show ?thesis using Cons.IH by (cases ys) auto
  qed
qed

lemma last_sort_key_rev:
  fixes t :: "'a \<Rightarrow> int"
  assumes "xs \<noteq> []"
  shows "\<exists>i<length xs. last (sort_key t (rev xs)) = xs ! i \<and>
           (\<forall>j<length xs. t (xs ! j) \<le> t (xs ! i)) \<and> (\<forall>j<i. t (xs ! j) < t (xs ! i))"
  using assms
proof (induction xs rule: rev_induct)
  case Nil
  then show ?case by simp
next
  case (snoc z xs)
  have l: "last (sort_key t (rev (xs @ [z]))) =
             (if \<forall>y\<in>set xs. t y < t z then z else last (sort_key t (rev xs)))"
    by (simp add: last_insort_key)
  show ?case
  proof (cases "\<forall>y\<in>set xs. t y < t z")
    case True
    have "last (sort_key t (rev (xs @ [z]))) = (xs @ [z]) ! length xs" using l True by simp
    moreover have "\<forall>j<length (xs @ [z]). t ((xs @ [z]) ! j) \<le> t ((xs @ [z]) ! length xs)"
      using True by (auto simp: nth_append less_Suc_eq intro: less_imp_le)
    moreover have "\<forall>j<length xs. t ((xs @ [z]) ! j) < t ((xs @ [z]) ! length xs)"
      using True by (auto simp: nth_append)
    ultimately show ?thesis by (intro exI [of _ "length xs"]) simp
  next
    case False
    then have ne: "xs \<noteq> []" by auto
    from snoc.IH [OF ne] obtain i where i: "i < length xs"
      and eq: "last (sort_key t (rev xs)) = xs ! i"
      and mx: "\<forall>j<length xs. t (xs ! j) \<le> t (xs ! i)"
      and fs: "\<forall>j<i. t (xs ! j) < t (xs ! i)" by blast
    from False obtain y where y: "y \<in> set xs" "t z \<le> t y" by force
    then obtain k where k: "k < length xs" "xs ! k = y" by (auto simp: in_set_conv_nth)
    with mx y have zi: "t z \<le> t (xs ! i)" by force
    have "last (sort_key t (rev (xs @ [z]))) = (xs @ [z]) ! i" using l False eq i by (simp add: nth_append)
    moreover have "\<forall>j<length (xs @ [z]). t ((xs @ [z]) ! j) \<le> t ((xs @ [z]) ! i)"
      using mx zi i by (auto simp: nth_append less_Suc_eq)
    moreover have "\<forall>j<i. t ((xs @ [z]) ! j) < t ((xs @ [z]) ! i)"
      using fs i by (auto simp: nth_append)
    ultimately show ?thesis using i by (intro exI [of _ i]) simp
  qed
qed

lemma sort_keys_total:
  "(\<And>x. x \<in> set xs \<Longrightarrow> key x = Inr (f x)) \<Longrightarrow> sort_keys key xs = Inr (map f xs)"
  by (induction xs) simp_all

lemma insort_key_decorated:
  "insort_key (\<lambda>p. g (fst p)) (f x, x) (map (\<lambda>y. (f y, y)) ys) =
      map (\<lambda>y. (f y, y)) (insort_key (\<lambda>y. g (f y)) x ys)"
  by (induction ys) simp_all

lemma sort_key_decorated:
  "sort_key (\<lambda>p. g (fst p)) (map (\<lambda>y. (f y, y)) ys) = map (\<lambda>y. (f y, y)) (sort_key (\<lambda>y. g (f y)) ys)"
  by (induction ys) (simp_all add: insort_key_decorated)

lemma map_snd_decorated: "map snd (map (\<lambda>y. (f y, y)) ys) = ys"
  by (induction ys) simp_all

lemma zip_decorated: "zip (map f xs) xs = map (\<lambda>y. (f y, y)) xs"
  by (induction xs) simp_all

lemma latest_at_last_sort_key_rev:
  fixes t :: "'a \<Rightarrow> int"
  assumes "xs \<noteq> []"
  shows "\<exists>i. latest_at t xs i \<and> last (sort_key t (rev xs)) = xs ! i"
proof -
  from last_sort_key_rev [OF assms, of t] obtain i where i: "i < length xs"
    and eq: "last (sort_key t (rev xs)) = xs ! i"
    and mx: "\<forall>j<length xs. t (xs ! j) \<le> t (xs ! i)"
    and fs: "\<forall>j<i. t (xs ! j) < t (xs ! i)" by blast
  have "list_all (\<lambda>x. t x \<le> t (xs ! i)) xs"
    using mx by (auto simp: list_all_iff in_set_conv_nth)
  moreover have "list_all (\<lambda>x. t x < t (xs ! i)) (take i xs)"
    using fs i by (auto simp: list_all_iff in_set_conv_nth)
  ultimately show ?thesis using i eq by (auto simp: latest_at_def)
qed

lemma utc_offset_replace:
  "concat (map (\<lambda>c. if c = CHR ''Z'' then ''+00:00'' else [c]) ts) = utc_offset ts"
  by (induction ts) simp_all

text \<open>The sort key of the code is the parsed publish timestamp.\<close>

lemma version_sort_key_published:
  assumes "published lib v = Some d"
  shows "version_sort_key lib v = Inr d"
proof -
  from assms obtain ts where f: "map_of v ''date_published'' = Some (JStr ts)"
    and p: "fromisoformat lib (utc_offset ts) = Inr d"
    by (auto simp: published_def date_published_def split: option.splits json.splits sum.splits)
  show ?thesis
    using f p
    by (simp add: version_sort_key_def parse_timestamp_def dict_get_default_def fstr_def
        utc_offset_replace)
qed

lemma version_sort_key_unparsable:
  assumes "unparsable lib v"
  shows "\<exists>e. version_sort_key lib v = Inl e"
proof -
  from assms obtain ts e where f: "map_of v ''date_published'' = Some (JStr ts)"
    and p: "fromisoformat lib (utc_offset ts) = Inl e"
    by (auto simp: unparsable_def date_published_def split: option.splits json.splits sum.splits)
  show ?thesis
    using f p
    by (simp add: version_sort_key_def parse_timestamp_def dict_get_default_def fstr_def
        utc_offset_replace)
qed

text \<open>A version without the field is sorted as if published at the epoch.\<close>

lemma version_sort_key_default:
  assumes "map_of v ''date_published'' = None"
  shows "version_sort_key lib v = fromisoformat lib ''1970-01-01T00:00:00+00:00''"
  using assms
  by (simp add: version_sort_key_def parse_timestamp_def dict_get_default_def fstr_def)

lemma instant_date_of: "instant (date_of lib v) = published_at lib v"
  by (simp add: date_of_def published_at_def instant_def split: option.splits)

lemma timestamps_ok_published:
  assumes "timestamps_ok lib vs" and "v \<in> set vs"
  shows "published lib v = Some (date_of lib v)"
  using assms
  by (auto simp: timestamps_ok_def list_all_iff date_of_def split: option.splits datetime.splits)

lemma timestamps_ok_key:
  assumes "timestamps_ok lib vs" and "v \<in> set vs"
  shows "version_sort_key lib v = Inr (date_of lib v)"
  using timestamps_ok_published [OF assms] by (rule version_sort_key_published)

lemma timestamps_ok_not_mixed:
  assumes "timestamps_ok lib vs"
  shows "\<not> (list_ex is_aware (map (date_of lib) vs) \<and> list_ex (\<lambda>k. \<not> is_aware k) (map (date_of lib) vs))"
  using assms
  by (auto simp: timestamps_ok_def list_all_iff list_ex_iff date_of_def is_aware_def
      split: option.splits datetime.splits)

lemma sorted_by_date_reverse_ok:
  assumes "timestamps_ok lib vs"
  shows "sorted_by_date_reverse (version_sort_key lib) vs =
           Inr (rev (sort_key (published_at lib) (rev vs)))"
proof -
  have k: "sort_keys (version_sort_key lib) vs = Inr (map (date_of lib) vs)"
    using timestamps_ok_key [OF assms] by (intro sort_keys_total) simp
  have "map snd (rev (sort_key (\<lambda>p. instant (fst p)) (rev (zip (map (date_of lib) vs) vs)))) =
        rev (sort_key (\<lambda>y. instant (date_of lib y)) (rev vs))"
    by (simp add: zip_decorated rev_map sort_key_decorated comp_def)
  then show ?thesis
    using k timestamps_ok_not_mixed [OF assms]
    by (simp add: sorted_by_date_reverse_def instant_date_of)
qed

lemma first_by_date:
  assumes "timestamps_ok lib vs" and "vs \<noteq> []"
  shows "\<exists>i. latest_at (published_at lib) vs i \<and>
           (case sorted_by_date_reverse (version_sort_key lib) vs of
              Inl e \<Rightarrow> Inl e
            | Inr s \<Rightarrow> index0 s) = Inr (vs ! i)"
proof -
  let ?s = "sort_key (published_at lib) (rev vs)"
  have "length ?s = length vs" by simp
  with assms(2) have ne: "?s \<noteq> []" by (cases ?s) auto
  then obtain ys y where sy: "?s = ys @ [y]" by (meson rev_exhaust)
  have "index0 (rev ?s) = Inr (last ?s)"
    unfolding sy by (simp add: index0_def)
  then show ?thesis
    using latest_at_last_sort_key_rev [OF assms(2), of "published_at lib"]
      sorted_by_date_reverse_ok [OF assms(1)] by simp
qed

lemma sort_keys_fails:
  assumes "x \<in> set xs" and "key x = Inl e"
  shows "\<exists>e'. sort_keys key xs = Inl e'"
  using assms by (induction xs) (auto split: sum.splits)

lemma first_by_date_fails:
  assumes "list_ex (unparsable lib) vs"
  shows "\<exists>e. (case sorted_by_date_reverse (version_sort_key lib) vs of
                Inl e \<Rightarrow> Inl e
              | Inr s \<Rightarrow> index0 s) = Inl e"
proof -
  from assms obtain v where v: "v \<in> set vs" "unparsable lib v" by (auto simp: list_ex_iff)
  from version_sort_key_unparsable [OF v(2)] obtain e0 where "version_sort_key lib v = Inl e0" ..
  from sort_keys_fails [where key = "version_sort_key lib", OF v(1) this]
  obtain e where "sort_keys (version_sort_key lib) vs = Inl e" ..
  then show ?thesis by (simp add: sorted_by_date_reverse_def)
qed

lemma latest_at_single: "latest_at t [x] 0"
  by (simp add: latest_at_def)

text \<open>
  C2. For a non-empty list of versions and a pin that is absent or a non-empty version
  number: the candidates are the versions with the pinned number, or all versions without
  a pin. With no candidate the call raises ``No compatible version\_number=...''. With
  candidates that all have a \<^verbatim>\<open>date_published\<close> string that parses (all with an offset
  or all without), the call returns the candidate at a position that holds the latest
  parsed publish timestamp and is the earliest such position in input order. A single
  pinned candidate is returned without reading any timestamp. Otherwise the timestamps
  are read, and a candidate whose \<^verbatim>\<open>date_published\<close> string does not parse makes the call
  raise an error: it returns no version.
\<close>

theorem select_version_most_recent:
  assumes "versions \<noteq> []" and "pin \<noteq> Some []"
  shows "(candidates pin versions = [] \<longrightarrow>
            (\<exists>p. pin = Some p \<and>
                 select_version lib versions pin =
                   Inl (ValueError (''No compatible version_number='' @ squote p @ '' found''))))
       \<and> (candidates pin versions \<noteq> [] \<and> timestamps_ok lib (candidates pin versions) \<longrightarrow>
            (\<exists>i. latest_at (published_at lib) (candidates pin versions) i \<and>
                 select_version lib versions pin = Inr (candidates pin versions ! i)))
       \<and> (pin \<noteq> None \<and> length (candidates pin versions) = 1 \<longrightarrow>
            select_version lib versions pin = Inr (candidates pin versions ! 0))
       \<and> ((pin = None \<or> 1 < length (candidates pin versions)) \<and>
          list_ex (unparsable lib) (candidates pin versions) \<longrightarrow>
            (\<exists>e. select_version lib versions pin = Inl e))"
proof (cases pin)
  case None
  then have c: "candidates pin versions = versions" by (simp add: candidates_def)
  have s: "select_version lib versions pin =
             (case sorted_by_date_reverse (version_sort_key lib) versions of
                Inl e \<Rightarrow> Inl e | Inr s \<Rightarrow> index0 s)"
    using None assms(1) by (simp add: select_version_def)
  have p1: "versions \<noteq> []" by (rule assms(1))
  have p2: "timestamps_ok lib versions \<Longrightarrow>
              \<exists>i. latest_at (published_at lib) versions i \<and>
                  (case sorted_by_date_reverse (version_sort_key lib) versions of
                     Inl e \<Rightarrow> Inl e | Inr s \<Rightarrow> index0 s) = Inr (versions ! i)"
    using first_by_date [of lib versions] assms(1) by simp
  have p4: "list_ex (unparsable lib) versions \<Longrightarrow>
              \<exists>e. (case sorted_by_date_reverse (version_sort_key lib) versions of
                     Inl e \<Rightarrow> Inl e | Inr s \<Rightarrow> index0 s) = Inl e"
    by (rule first_by_date_fails)
  show ?thesis
    unfolding c s using None p1 p2 p4 by simp
next
  case (Some p)
  with assms(2) have p: "p \<noteq> []" by simp
  let ?m = "filter (\<lambda>v. dict_get v ''version_number'' = JStr p) versions"
  have c: "candidates pin versions = ?m" using Some by (simp add: candidates_def)
  show ?thesis
  proof (cases "?m = []")
    case True
    then have "select_version lib versions pin =
                 Inl (ValueError (''No compatible version_number='' @ squote p @ '' found''))"
      using Some p assms(1) by (simp add: select_version_def)
    then show ?thesis unfolding c using True Some by simp
  next
    case False
    show ?thesis
    proof (cases "length ?m > 1")
      case True
      then have s: "select_version lib versions pin =
             (case sorted_by_date_reverse (version_sort_key lib) ?m of
                Inl e \<Rightarrow> Inl e | Inr s \<Rightarrow> index0 s)"
        using Some p assms(1) False by (simp add: select_version_def Let_def)
      have p2: "timestamps_ok lib ?m \<Longrightarrow>
                  \<exists>i. latest_at (published_at lib) ?m i \<and>
                      (case sorted_by_date_reverse (version_sort_key lib) ?m of
                         Inl e \<Rightarrow> Inl e | Inr s \<Rightarrow> index0 s) = Inr (?m ! i)"
        using first_by_date [of lib ?m] False by simp
      have p4: "list_ex (unparsable lib) ?m \<Longrightarrow>
                  \<exists>e. (case sorted_by_date_reverse (version_sort_key lib) ?m of
                         Inl e \<Rightarrow> Inl e | Inr s \<Rightarrow> index0 s) = Inl e"
        by (rule first_by_date_fails)
      have n1: "length ?m \<noteq> 1" using True by simp
      show ?thesis
        unfolding c s using False n1 p2 p4 by simp
    next
      case one: False
      with False obtain v where v: "?m = [v]"
        by (cases ?m) (auto simp: Suc_lessI)
      have s: "select_version lib versions pin = Inr v"
        using Some p assms(1) v by (simp add: select_version_def Let_def index0_def)
      show ?thesis
        unfolding c s v using Some latest_at_single [of "published_at lib" v] by auto
    qed
  qed
qed

theorem select_version_most_recent_witness:
  "[version_a, version_b, version_c] \<noteq> [] \<and> (None :: string option) \<noteq> Some [] \<and>
   Some ''3.0'' \<noteq> Some [] \<and> Some ''2.0'' \<noteq> Some [] \<and> Some ''1.0'' \<noteq> Some [] \<and>
   candidates None [version_a, version_b, version_c] \<noteq> [] \<and>
   timestamps_ok lib_example (candidates None [version_a, version_b, version_c]) \<and>
   (\<exists>i. latest_at (published_at lib_example) (candidates None [version_a, version_b, version_c]) i \<and>
        select_version lib_example [version_a, version_b, version_c] None =
          Inr (candidates None [version_a, version_b, version_c] ! i)) \<and>
   candidates (Some ''2.0'') [version_a, version_b, version_c] \<noteq> [] \<and>
   timestamps_ok lib_example (candidates (Some ''2.0'') [version_a, version_b, version_c]) \<and>
   (\<exists>i. latest_at (published_at lib_example) (candidates (Some ''2.0'') [version_a, version_b, version_c]) i \<and>
        select_version lib_example [version_a, version_b, version_c] (Some ''2.0'') =
          Inr (candidates (Some ''2.0'') [version_a, version_b, version_c] ! i)) \<and>
   candidates (Some ''3.0'') [version_a, version_b, version_c] = [] \<and>
   (\<exists>p. Some ''3.0'' = Some p \<and>
        select_version lib_example [version_a, version_b, version_c] (Some ''3.0'') =
          Inl (ValueError (''No compatible version_number='' @ squote p @ '' found''))) \<and>
   length (candidates (Some ''1.0'') [version_a, version_b, version_c]) = 1 \<and>
   select_version lib_example [version_a, version_b, version_c] (Some ''1.0'') =
     Inr (candidates (Some ''1.0'') [version_a, version_b, version_c] ! 0) \<and>
   [version_b, version_bad] \<noteq> [] \<and>
   list_ex (unparsable lib_example) (candidates None [version_b, version_bad]) \<and>
   (\<exists>e. select_version lib_example [version_b, version_bad] None = Inl e)"
proof -
  have ne: "[version_a, version_b, version_c] \<noteq> []" by simp
  have ne': "[version_b, version_bad] \<noteq> []" by simp
  have c0: "candidates None [version_a, version_b, version_c] = [version_a, version_b, version_c]"
    by (simp add: candidates_def)
  have t0: "timestamps_ok lib_example [version_a, version_b, version_c]"
    by (simp add: timestamps_ok_def published_def date_published_def version_a_def version_b_def
          version_c_def lib_example_def)
  have c2: "candidates (Some ''2.0'') [version_a, version_b, version_c] = [version_b, version_c]"
    by (simp add: candidates_def version_a_def version_b_def version_c_def dict_get_def)
  have t2: "timestamps_ok lib_example [version_b, version_c]"
    by (simp add: timestamps_ok_def published_def date_published_def version_b_def
          version_c_def lib_example_def)
  have c3: "candidates (Some ''3.0'') [version_a, version_b, version_c] = []"
    by (simp add: candidates_def version_a_def version_b_def version_c_def dict_get_def)
  have c1: "candidates (Some ''1.0'') [version_a, version_b, version_c] = [version_a]"
    by (simp add: candidates_def version_a_def version_b_def version_c_def dict_get_def)
  have cb: "candidates None [version_b, version_bad] = [version_b, version_bad]"
    by (simp add: candidates_def)
  have ub: "list_ex (unparsable lib_example) [version_b, version_bad]"
    by (simp add: unparsable_def date_published_def version_b_def version_bad_def lib_example_def)
  have p0: "(None :: string option) \<noteq> Some []" by simp
  have p3: "Some ''3.0'' \<noteq> Some []" by simp
  have p2: "Some ''2.0'' \<noteq> Some []" by simp
  have p1: "Some ''1.0'' \<noteq> Some []" by simp
  have r0: "\<exists>i. latest_at (published_at lib_example) [version_a, version_b, version_c] i \<and>
              select_version lib_example [version_a, version_b, version_c] None =
                Inr ([version_a, version_b, version_c] ! i)"
    using select_version_most_recent [OF ne p0, of lib_example] t0 unfolding c0 by blast
  have r2: "\<exists>i. latest_at (published_at lib_example) [version_b, version_c] i \<and>
              select_version lib_example [version_a, version_b, version_c] (Some ''2.0'') =
                Inr ([version_b, version_c] ! i)"
    using select_version_most_recent [OF ne p2, of lib_example] t2 unfolding c2 by blast
  have r3: "\<exists>p. Some ''3.0'' = Some p \<and>
              select_version lib_example [version_a, version_b, version_c] (Some ''3.0'') =
                Inl (ValueError (''No compatible version_number='' @ squote p @ '' found''))"
    using select_version_most_recent [OF ne p3, of lib_example] unfolding c3 by blast
  have r1: "select_version lib_example [version_a, version_b, version_c] (Some ''1.0'') =
              Inr ([version_a] ! 0)"
    using select_version_most_recent [OF ne p1, of lib_example] unfolding c1 by simp
  have rb: "\<exists>e. select_version lib_example [version_b, version_bad] None = Inl e"
    using select_version_most_recent [OF ne' p0, of lib_example] ub unfolding cb by blast
  show ?thesis
    unfolding c0 c2 c3 c1 cb
    using t0 t2 ub r0 r2 r3 r1 rb by simp
qed

text \<open>
  A list of two versions and no pin for which the call returns no version: the publish
  timestamp of the second version does not parse, and the error of the parser ends the
  call, although the first version has a publish timestamp that parses.
\<close>

theorem select_version_unparsable_counterexample:
  "[version_b, version_bad] \<noteq> [] \<and>
   published lib_example version_b = Some (Aware 1717200000000000) \<and>
   select_version lib_example [version_b, version_bad] None =
     Inl (ValueError (''Invalid isoformat string: '' @ squote ''garbage''))"
  by (simp add: select_version_def sorted_by_date_reverse_def version_sort_key_def parse_timestamp_def
        lib_example_def dict_get_default_def fstr_def published_def date_published_def
        version_b_def version_bad_def)

text \<open>The tie between \<open>version_b\<close> and \<open>version_c\<close> goes to the earlier one, and an empty pin
  is no pin.\<close>

lemma select_version_tie_example:
  "select_version lib_example [version_a, version_b, version_c] None = Inr version_b
   \<and> select_version lib_example [version_a, version_c, version_b] None = Inr version_c
   \<and> select_version lib_example [version_a, version_b, version_c] (Some ''2.0'') = Inr version_b
   \<and> select_version lib_example [version_a, version_b, version_c] (Some []) = Inr version_b"
  by (simp add: select_version_def sorted_by_date_reverse_def version_sort_key_def parse_timestamp_def
        lib_example_def dict_get_default_def dict_get_def fstr_def is_aware_def instant_def index0_def
        version_a_def version_b_def version_c_def)

subsection \<open>The loop of a category\<close>

lemma fetch_versions_log:
  "fetch_versions rq project_id log = (log @ [api_url project_id], snd (fetch_versions rq project_id []))"
  by (simp add: fetch_versions_def api_url_def Let_def)

lemma build_lock_entry_filename:
  assumes "build_lock_entry file_obj side = Inr e"
  shows "subscript (JObj e) ''filename'' = Inr (JStr (filename_str e)) \<and> filename_str e \<noteq> [] \<and>
         filename_of e = JStr (filename_str e)"
proof -
  from build_lock_entry_Inr [OF assms] obtain h where
    f: "nonempty_str (dict_get file_obj ''filename'')" and
    e: "e = [(''filename'', dict_get file_obj ''filename''),
                  (''side'', JStr side),
                  (''downloads'', JList [dict_get file_obj ''url'']),
                  (''hashes'', JObj (kept_hashes h)),
                  (''fileSize'', dict_get file_obj ''size'')]"
    by blast
  from f obtain s where s: "dict_get file_obj ''filename'' = JStr s" "s \<noteq> []"
    by (cases "dict_get file_obj ''filename''") (simp_all add: nonempty_str_def)
  show ?thesis
    unfolding e using s by (simp add: subscript_def filename_str_def filename_of_def dict_get_def)
qed

lemma lock_entry_of_build:
  assumes "lock_entry_of rq lib minecraft loader entry = Inr e"
  shows "\<exists>file_obj. build_lock_entry file_obj (ref_side entry) = Inr e"
  using assms by (auto simp: lock_entry_of_def split: sum.splits)

lemma lock_entry_of_filename:
  assumes "lock_entry_of rq lib minecraft loader entry = Inr e"
  shows "subscript (JObj e) ''filename'' = Inr (JStr (filename_str e)) \<and> filename_str e \<noteq> [] \<and>
         filename_of e = JStr (filename_str e)"
  using lock_entry_of_build [OF assms] build_lock_entry_filename by blast

lemma resolve_entries_loop_step:
  "resolve_entries_loop rq lib minecraft loader label require_loader resolved seen (entry # entries) log =
     (case lock_entry_of rq lib minecraft (if require_loader then Some loader else None) entry of
        Inl e \<Rightarrow> (log @ requests_of lib entry, Inl e)
      | Inr lock_entry \<Rightarrow>
          if filename_of lock_entry \<in> seen
          then (log @ requests_of lib entry, Inl (duplicate_error label (filename_str lock_entry)))
          else resolve_entries_loop rq lib minecraft loader label require_loader
                 (resolved @ [lock_entry]) (insert (filename_of lock_entry) seen) entries
                 (log @ requests_of lib entry))"
proof (cases "parse_project_id lib (ref_url entry)")
  case (Inl e)
  then show ?thesis by (simp add: lock_entry_of_def requests_of_def)
next
  case pid: (Inr project_id)
  note fl = fetch_versions_log [of rq project_id log]
  show ?thesis
  proof (cases "snd (fetch_versions rq project_id [])")
    case (Inl e)
    then show ?thesis using pid by (simp add: lock_entry_of_def requests_of_def fl)
  next
    case vs: (Inr versions)
    show ?thesis
    proof (cases "select_version lib
             (filter_versions versions minecraft (if require_loader then Some loader else None))
             (ref_version entry)")
      case (Inl e)
      then show ?thesis using pid vs by (simp add: lock_entry_of_def requests_of_def fl)
    next
      case sv: (Inr selected_version)
      show ?thesis
      proof (cases "select_file selected_version")
        case (Inl e)
        then show ?thesis using pid vs sv by (simp add: lock_entry_of_def requests_of_def fl)
      next
        case sf: (Inr selected_file)
        show ?thesis
        proof (cases "build_lock_entry selected_file (ref_side entry)")
          case (Inl e)
          then show ?thesis using pid vs sv sf by (simp add: lock_entry_of_def requests_of_def fl)
        next
          case le: (Inr lock_entry)
          note f = build_lock_entry_filename [OF le]
          have l: "lock_entry_of rq lib minecraft (if require_loader then Some loader else None) entry
                    = Inr lock_entry"
            using pid vs sv sf le by (simp add: lock_entry_of_def)
          show ?thesis
            unfolding l using pid vs sv sf le f
            by (simp add: requests_of_def fl unhashable_def duplicate_error_def fstr_def)
        qed
      qed
    qed
  qed
qed

lemma resolve_entries_loop_log:
  "resolve_entries_loop rq lib minecraft loader label require_loader resolved seen entries log =
     (log @ fst (resolve_entries_loop rq lib minecraft loader label require_loader resolved seen entries []),
      snd (resolve_entries_loop rq lib minecraft loader label require_loader resolved seen entries []))"
proof (induction entries arbitrary: resolved seen log)
  case Nil
  show ?case by simp
next
  case (Cons entry entries)
  let ?lo = "if require_loader then Some loader else None"
  show ?case
  proof (cases "lock_entry_of rq lib minecraft ?lo entry")
    case (Inl e)
    then show ?thesis by (simp add: resolve_entries_loop_step del: resolve_entries_loop.simps)
  next
    case (Inr le)
    show ?thesis
    proof (cases "filename_of le \<in> seen")
      case True
      with Inr show ?thesis by (simp add: resolve_entries_loop_step del: resolve_entries_loop.simps)
    next
      case False
      have a: "resolve_entries_loop rq lib minecraft loader label require_loader resolved seen
                 (entry # entries) log =
               resolve_entries_loop rq lib minecraft loader label require_loader (resolved @ [le])
                 (insert (filename_of le) seen) entries (log @ requests_of lib entry)" for log
        using Inr False by (simp add: resolve_entries_loop_step del: resolve_entries_loop.simps)
      show ?thesis
        unfolding a
        using Cons.IH [of "resolved @ [le]" "insert (filename_of le) seen" "log @ requests_of lib entry"]
          Cons.IH [of "resolved @ [le]" "insert (filename_of le) seen" "[] @ requests_of lib entry"]
        by simp
    qed
  qed
qed

lemma resolve_entries_loop_Inr:
  assumes "snd (resolve_entries_loop rq lib minecraft loader label require_loader resolved seen entries log)
             = Inr out"
  shows "\<exists>les. out = resolved @ les \<and>
           list_all2 (\<lambda>entry le. lock_entry_of rq lib minecraft
                        (if require_loader then Some loader else None) entry = Inr le) entries les \<and>
           distinct (map filename_of les) \<and> filename_of ` set les \<inter> seen = {}"
  using assms
proof (induction entries arbitrary: resolved seen log)
  case Nil
  then show ?case by simp
next
  case (Cons entry entries)
  let ?lo = "if require_loader then Some loader else None"
  from Cons.prems obtain le where le: "lock_entry_of rq lib minecraft ?lo entry = Inr le"
    by (cases "lock_entry_of rq lib minecraft ?lo entry")
       (simp_all add: resolve_entries_loop_step del: resolve_entries_loop.simps)
  from Cons.prems le have ns: "filename_of le \<notin> seen"
    by (cases "filename_of le \<in> seen")
       (simp_all add: resolve_entries_loop_step del: resolve_entries_loop.simps)
  from Cons.prems le ns have
    "snd (resolve_entries_loop rq lib minecraft loader label require_loader (resolved @ [le])
            (insert (filename_of le) seen) entries (log @ requests_of lib entry)) = Inr out"
    by (simp add: resolve_entries_loop_step del: resolve_entries_loop.simps)
  from Cons.IH [OF this] obtain les where
    o: "out = (resolved @ [le]) @ les" and
    r: "list_all2 (\<lambda>entry le. lock_entry_of rq lib minecraft ?lo entry = Inr le) entries les" and
    d: "distinct (map filename_of les)" and
    i: "filename_of ` set les \<inter> insert (filename_of le) seen = {}" by blast
  have "out = resolved @ (le # les)" using o by simp
  moreover have "list_all2 (\<lambda>entry le. lock_entry_of rq lib minecraft ?lo entry = Inr le)
                   (entry # entries) (le # les)" using r le by simp
  moreover have "distinct (map filename_of (le # les))" using d i by auto
  moreover have "filename_of ` set (le # les) \<inter> seen = {}" using i ns by auto
  ultimately show ?case by blast
qed

lemma resolve_entries_loop_ok:
  assumes "list_all2 (\<lambda>entry le. lock_entry_of rq lib minecraft
                        (if require_loader then Some loader else None) entry = Inr le) entries les"
    and "distinct (map filename_of les)" and "filename_of ` set les \<inter> seen = {}"
  shows "snd (resolve_entries_loop rq lib minecraft loader label require_loader resolved seen entries log)
           = Inr (resolved @ les)"
  using assms
proof (induction entries les arbitrary: resolved seen log rule: list_all2_induct)
  case Nil
  then show ?case by simp
next
  case (Cons entry entries le les)
  have ns: "filename_of le \<notin> seen" using Cons.prems(2) by auto
  have d: "distinct (map filename_of les)" using Cons.prems(1) by simp
  have i: "filename_of ` set les \<inter> insert (filename_of le) seen = {}"
    using Cons.prems by auto
  show ?case
    using Cons.hyps(1) ns Cons.IH [OF d i, of "resolved @ [le]" "log @ requests_of lib entry"]
    by (simp add: resolve_entries_loop_step del: resolve_entries_loop.simps)
qed

lemma resolve_entries_loop_duplicate:
  assumes "list_all2 (\<lambda>entry le. lock_entry_of rq lib minecraft
                        (if require_loader then Some loader else None) entry = Inr le) pre les"
    and "\<not> distinct (map filename_of les) \<or> (\<exists>le\<in>set les. filename_of le \<in> seen)"
  shows "\<exists>name j. j < length les \<and> filename_of (les ! j) = JStr name \<and>
           (JStr name \<in> seen \<or> (\<exists>i<j. filename_of (les ! i) = JStr name)) \<and>
           snd (resolve_entries_loop rq lib minecraft loader label require_loader resolved seen
                  (pre @ rest) log) = Inl (duplicate_error label name)"
  using assms
proof (induction pre les arbitrary: resolved seen log rule: list_all2_induct)
  case Nil
  then show ?case by simp
next
  case (Cons entry pre le les)
  let ?lo = "if require_loader then Some loader else None"
  note f = lock_entry_of_filename [OF Cons.hyps(1)]
  show ?case
  proof (cases "filename_of le \<in> seen")
    case True
    have "snd (resolve_entries_loop rq lib minecraft loader label require_loader resolved seen
                  ((entry # pre) @ rest) log) = Inl (duplicate_error label (filename_str le))"
      using Cons.hyps(1) True by (simp add: resolve_entries_loop_step del: resolve_entries_loop.simps)
    moreover have "filename_of ((le # les) ! 0) = JStr (filename_str le)" using f by simp
    moreover have "JStr (filename_str le) \<in> seen" using True f by simp
    ultimately show ?thesis by (intro exI [of _ "filename_str le"] exI [of _ 0]) simp
  next
    case False
    have p: "\<not> distinct (map filename_of les) \<or>
             (\<exists>le'\<in>set les. filename_of le' \<in> insert (filename_of le) seen)"
      using Cons.prems False by auto
    from Cons.IH [OF p, of "resolved @ [le]" "log @ requests_of lib entry"]
    obtain name j where j: "j < length les" and n: "filename_of (les ! j) = JStr name"
      and w: "JStr name \<in> insert (filename_of le) seen \<or> (\<exists>i<j. filename_of (les ! i) = JStr name)"
      and r: "snd (resolve_entries_loop rq lib minecraft loader label require_loader (resolved @ [le])
                (insert (filename_of le) seen) (pre @ rest) (log @ requests_of lib entry))
              = Inl (duplicate_error label name)" by blast
    have r': "snd (resolve_entries_loop rq lib minecraft loader label require_loader resolved seen
                  ((entry # pre) @ rest) log) = Inl (duplicate_error label name)"
      using Cons.hyps(1) False r by (simp add: resolve_entries_loop_step del: resolve_entries_loop.simps)
    have w': "JStr name \<in> seen \<or> (\<exists>i<Suc j. filename_of ((le # les) ! i) = JStr name)"
    proof -
      from w consider "JStr name = filename_of le" | "JStr name \<in> seen"
        | "\<exists>i<j. filename_of (les ! i) = JStr name" by auto
      then show ?thesis
      proof cases
        case 1
        then have "filename_of ((le # les) ! 0) = JStr name" by simp
        then show ?thesis by blast
      next
        case 2
        then show ?thesis by simp
      next
        case 3
        then obtain i where "i < j" "filename_of ((le # les) ! Suc i) = JStr name" by auto
        then show ?thesis by (metis Suc_less_eq)
      qed
    qed
    show ?thesis
      using j n w' r' by (intro exI [of _ name] exI [of _ "Suc j"]) simp
  qed
qed

lemma insort_key_fst_decorated:
  "insort_key fst (f x, x) (map (\<lambda>y. (f y, y)) ys) = map (\<lambda>y. (f y, y)) (insort_key f x ys)"
  by (induction ys) simp_all

lemma sort_key_fst_decorated:
  "sort_key fst (map (\<lambda>y. (f y, y)) ys) = map (\<lambda>y. (f y, y)) (sort_key f ys)"
  by (induction ys) (simp_all add: insort_key_fst_decorated)

lemma sort_by_filename_ok:
  assumes "\<And>x. x \<in> set resolved \<Longrightarrow> subscript (JObj x) ''filename'' = Inr (JStr (filename_str x))"
  shows "sort_by_filename lib resolved = Inr (sort_key (\<lambda>x. str_lower lib (filename_str x)) resolved)"
proof -
  have k: "sort_keys (filename_lower lib) resolved = Inr (map (\<lambda>x. str_lower lib (filename_str x)) resolved)"
    using assms by (intro sort_keys_total) (simp add: filename_lower_def)
  show ?thesis
    unfolding sort_by_filename_def k
    by (simp add: zip_decorated sort_key_fst_decorated comp_def)
qed

subsection \<open>Resolution of a category\<close>

lemma resolve_entries_log:
  "resolve_entries rq lib entries minecraft loader label require_loader log =
     (log @ fst (resolve_entries rq lib entries minecraft loader label require_loader []),
      snd (resolve_entries rq lib entries minecraft loader label require_loader []))"
  unfolding resolve_entries_def
  by (subst resolve_entries_loop_log)
     (simp add: split_beta split: sum.splits prod.splits)

lemma list_all2_lock_entry_filename:
  assumes "list_all2 (\<lambda>entry le. lock_entry_of rq lib minecraft loader entry = Inr le) entries les"
    and "x \<in> set les"
  shows "subscript (JObj x) ''filename'' = Inr (JStr (filename_str x)) \<and> filename_str x \<noteq> [] \<and>
         filename_of x = JStr (filename_str x)"
proof -
  from assms obtain entry where "lock_entry_of rq lib minecraft loader entry = Inr x"
    by (auto simp: list_all2_conv_all_nth in_set_conv_nth)
  then show ?thesis by (rule lock_entry_of_filename)
qed

lemma resolve_entries_Inr:
  assumes "snd (resolve_entries rq lib entries minecraft loader label require_loader log) = Inr out"
  shows "\<exists>les. list_all2 (\<lambda>entry le. lock_entry_of rq lib minecraft
                        (if require_loader then Some loader else None) entry = Inr le) entries les \<and>
           distinct (map filename_of les) \<and>
           out = sort_key (\<lambda>x. str_lower lib (filename_str x)) les"
proof -
  obtain l r where lr: "resolve_entries_loop rq lib minecraft loader label require_loader [] {} entries log
                         = (l, r)" by (cases "resolve_entries_loop rq lib minecraft loader label require_loader [] {} entries log")
  from assms lr obtain resolved where r: "r = Inr resolved" and s: "sort_by_filename lib resolved = Inr out"
    by (cases r) (simp_all add: resolve_entries_def)
  from lr r have "snd (resolve_entries_loop rq lib minecraft loader label require_loader [] {} entries log)
                    = Inr resolved" by simp
  from resolve_entries_loop_Inr [OF this] obtain les where
    a: "list_all2 (\<lambda>entry le. lock_entry_of rq lib minecraft
                        (if require_loader then Some loader else None) entry = Inr le) entries les" and
    d: "distinct (map filename_of les)" and e: "resolved = les" by auto
  have "sort_by_filename lib les = Inr (sort_key (\<lambda>x. str_lower lib (filename_str x)) les)"
    using list_all2_lock_entry_filename [OF a] by (intro sort_by_filename_ok) blast
  with s e a d show ?thesis by auto
qed

lemma resolve_entries_ok:
  assumes "list_all2 (\<lambda>entry le. lock_entry_of rq lib minecraft
                        (if require_loader then Some loader else None) entry = Inr le) entries les"
    and "distinct (map filename_of les)"
  shows "snd (resolve_entries rq lib entries minecraft loader label require_loader log) =
           Inr (sort_key (\<lambda>x. str_lower lib (filename_str x)) les)"
proof -
  have "snd (resolve_entries_loop rq lib minecraft loader label require_loader [] {} entries log)
          = Inr ([] @ les)"
    using assms by (intro resolve_entries_loop_ok) simp_all
  moreover have "sort_by_filename lib les = Inr (sort_key (\<lambda>x. str_lower lib (filename_str x)) les)"
    using list_all2_lock_entry_filename [OF assms(1)] by (intro sort_by_filename_ok) blast
  ultimately show ?thesis
    by (simp add: resolve_entries_def split_beta split: sum.splits)
qed

lemma resolve_entries_duplicate:
  assumes "list_all2 (\<lambda>entry le. lock_entry_of rq lib minecraft
                        (if require_loader then Some loader else None) entry = Inr le) pre les"
    and "\<not> distinct (map filename_of les)"
  shows "\<exists>name i j. i < j \<and> j < length les \<and> filename_of (les ! i) = JStr name \<and>
           filename_of (les ! j) = JStr name \<and>
           snd (resolve_entries rq lib (pre @ rest) minecraft loader label require_loader log)
             = Inl (duplicate_error label name)"
proof -
  from resolve_entries_loop_duplicate
         [OF assms(1), where seen = "{}" and resolved = "[]" and rest = rest and log = log and label = label]
       assms(2)
  obtain name j where j: "j < length les" and n: "filename_of (les ! j) = JStr name"
    and w: "\<exists>i<j. filename_of (les ! i) = JStr name"
    and r: "snd (resolve_entries_loop rq lib minecraft loader label require_loader [] {} (pre @ rest) log)
              = Inl (duplicate_error label name)" by auto
  from r have "snd (resolve_entries rq lib (pre @ rest) minecraft loader label require_loader log)
                 = Inl (duplicate_error label name)"
    by (simp add: resolve_entries_def split_beta split: sum.splits)
  with j n w show ?thesis by blast
qed

lemma lock_entries_agree:
  assumes "\<And>u. u \<in> set (requests_of lib entry) \<Longrightarrow> rq' u = rq u"
  shows "lock_entry_of rq' lib minecraft loader entry = lock_entry_of rq lib minecraft loader entry"
proof (cases "parse_project_id lib (ref_url entry)")
  case (Inl e)
  then show ?thesis by (simp add: lock_entry_of_def)
next
  case (Inr project_id)
  with assms have "rq' (api_url project_id) = rq (api_url project_id)"
    by (simp add: requests_of_def)
  then have "snd (fetch_versions rq' project_id []) = snd (fetch_versions rq project_id [])"
    by (simp add: fetch_versions_def api_url_def Let_def)
  with Inr show ?thesis by (simp add: lock_entry_of_def)
qed

lemma resolve_entries_loop_agree:
  assumes "\<And>entry u. entry \<in> set entries \<Longrightarrow> u \<in> set (requests_of lib entry) \<Longrightarrow> rq' u = rq u"
  shows "resolve_entries_loop rq' lib minecraft loader label require_loader resolved seen entries log =
         resolve_entries_loop rq lib minecraft loader label require_loader resolved seen entries log"
  using assms
proof (induction entries arbitrary: resolved seen log)
  case Nil
  show ?case by simp
next
  case (Cons entry entries)
  have l: "lock_entry_of rq' lib minecraft (if require_loader then Some loader else None) entry =
           lock_entry_of rq lib minecraft (if require_loader then Some loader else None) entry"
    using Cons.prems by (intro lock_entries_agree) auto
  have ih: "resolve_entries_loop rq' lib minecraft loader label require_loader r s entries g =
            resolve_entries_loop rq lib minecraft loader label require_loader r s entries g" for r s g
    using Cons.prems by (intro Cons.IH) auto
  show ?case
    by (simp only: resolve_entries_loop_step l ih)
qed


subsection \<open>A resolved manifest passes packaging validation\<close>

lemma list_all2_lock_entry_valid:
  assumes "list_all2 (\<lambda>entry le. lock_entry_of rq lib minecraft loader entry = Inr le) entries les"
    and "list_all (\<lambda>entry. ref_side entry \<in> VALID_SIDES) entries"
    and "x \<in> set les"
  shows "entry_valid (JObj x)"
proof -
  from assms(1,3) obtain i where i: "i < length entries"
    and l: "lock_entry_of rq lib minecraft loader (entries ! i) = Inr x"
    by (auto simp: list_all2_conv_all_nth in_set_conv_nth)
  from assms(2) i have s: "ref_side (entries ! i) \<in> VALID_SIDES"
    by (simp add: list_all_length)
  from lock_entry_of_build [OF l] obtain file_obj where
    "build_lock_entry file_obj (ref_side (entries ! i)) = Inr x" by blast
  then show ?thesis using s by (rule build_lock_entry_valid)
qed

text \<open>
  C10. A lock entry returned by \<^verbatim>\<open>build_lock_entry\<close> for a valid side has a non-empty string
  as file name, the declared side, a download list of exactly one non-empty URL string,
  a hash object with \<open>sha1\<close> or \<open>sha512\<close> and an integer size above zero, and
  \<^verbatim>\<open>validate_entries\<close> accepts it; and the manifest of a successful category resolution
  whose references all have valid sides passes \<^verbatim>\<open>validate_entries\<close> unchanged.
\<close>

theorem build_lock_entry_passes_validation:
  "(build_lock_entry file_obj side = Inr e \<and> side \<in> VALID_SIDES \<longrightarrow>
       nonempty_str (dict_get e ''filename'') \<and> dict_get e ''side'' = JStr side \<and>
       (\<exists>u. dict_get e ''downloads'' = JList [JStr u] \<and> u \<noteq> []) \<and>
       (\<exists>h. dict_get e ''hashes'' = JObj h \<and> (map_of h ''sha1'' \<noteq> None \<or> map_of h ''sha512'' \<noteq> None)) \<and>
       is_int (dict_get e ''fileSize'') \<and> 0 < int_val (dict_get e ''fileSize'') \<and>
       validate_entries (JList [JObj e]) manifest_name = Inr [JObj e])
   \<and> (snd (resolve_entries rq lib entries minecraft loader label require_loader log) = Inr out \<and>
       list_all (\<lambda>entry. ref_side entry \<in> VALID_SIDES) entries \<longrightarrow>
       validate_entries (JList (map JObj out)) manifest_name = Inr (map JObj out))"
proof (intro conjI impI)
  assume a: "build_lock_entry file_obj side = Inr e \<and> side \<in> VALID_SIDES"
  then have b: "build_lock_entry file_obj side = Inr e" and s: "side \<in> VALID_SIDES" by simp_all
  from build_lock_entry_Inr [OF b] obtain h where
    h: "kept_hashes h \<noteq> []" and
    f: "nonempty_str (dict_get file_obj ''filename'')" and
    u: "nonempty_str (dict_get file_obj ''url'')" and
    z: "is_int (dict_get file_obj ''size'')" "0 < int_val (dict_get file_obj ''size'')" and
    e: "e = [(''filename'', dict_get file_obj ''filename''),
                  (''side'', JStr side),
                  (''downloads'', JList [dict_get file_obj ''url'']),
                  (''hashes'', JObj (kept_hashes h)),
                  (''fileSize'', dict_get file_obj ''size'')]"
    by blast
  from u obtain us where us: "dict_get file_obj ''url'' = JStr us" "us \<noteq> []"
    by (cases "dict_get file_obj ''url''") (simp_all add: nonempty_str_def)
  show "nonempty_str (dict_get e ''filename'')" using f by (simp add: e dict_get_def)
  show "dict_get e ''side'' = JStr side" by (simp add: e dict_get_def)
  show "\<exists>u. dict_get e ''downloads'' = JList [JStr u] \<and> u \<noteq> []"
    using us by (simp add: e dict_get_def)
  show "\<exists>h. dict_get e ''hashes'' = JObj h \<and> (map_of h ''sha1'' \<noteq> None \<or> map_of h ''sha512'' \<noteq> None)"
    using kept_hashes_keys [OF h] by (simp add: e dict_get_def)
  show "is_int (dict_get e ''fileSize'')" using z by (simp add: e dict_get_def)
  show "0 < int_val (dict_get e ''fileSize'')" using z by (simp add: e dict_get_def)
  have "entry_valid (JObj e)" using b s by (rule build_lock_entry_valid)
  then have "validate_entries_loop manifest_name 0 [JObj e] = None"
    by (intro validate_entries_loop_valid) simp
  then show "validate_entries (JList [JObj e]) manifest_name = Inr [JObj e]"
    by (simp add: validate_entries_def)
next
  assume a: "snd (resolve_entries rq lib entries minecraft loader label require_loader log) = Inr out \<and>
       list_all (\<lambda>entry. ref_side entry \<in> VALID_SIDES) entries"
  then have r: "snd (resolve_entries rq lib entries minecraft loader label require_loader log) = Inr out"
    and s: "list_all (\<lambda>entry. ref_side entry \<in> VALID_SIDES) entries" by simp_all
  from resolve_entries_Inr [OF r] obtain les where
    l: "list_all2 (\<lambda>entry le. lock_entry_of rq lib minecraft
                        (if require_loader then Some loader else None) entry = Inr le) entries les" and
    o: "out = sort_key (\<lambda>x. str_lower lib (filename_str x)) les" by blast
  have "list_all entry_valid (map JObj out)"
    using list_all2_lock_entry_valid [OF l s] by (simp add: o list_all_iff)
  then have "validate_entries_loop manifest_name 0 (map JObj out) = None"
    by (rule validate_entries_loop_valid)
  then show "validate_entries (JList (map JObj out)) manifest_name = Inr (map JObj out)"
    by (simp add: validate_entries_def)
qed

lemma example_file_entry:
  "build_lock_entry
     [(''filename'', JStr ''sodium.jar''), (''url'', JStr ''https://cdn.example/sodium.jar''),
      (''size'', JInt 12345), (''hashes'', JObj [(''sha512'', JStr ''abc'')]), (''primary'', JBool True)]
     ''both'' = Inr (example_lock ''sodium.jar'')"
  by code_simp

lemma example_resolution:
  "snd (resolve_entries registry_example lib_example [example_ref ''delta'', example_ref ''gamma'']
          ''1.20.1'' ''fabric'' ''mods'' True []) = Inr [example_lock ''gamma.jar'', example_lock ''Gamma.jar'']"
  by code_simp

theorem build_lock_entry_passes_validation_witness:
  "build_lock_entry
     [(''filename'', JStr ''sodium.jar''), (''url'', JStr ''https://cdn.example/sodium.jar''),
      (''size'', JInt 12345), (''hashes'', JObj [(''sha512'', JStr ''abc'')]), (''primary'', JBool True)]
     ''both'' = Inr (example_lock ''sodium.jar'')
   \<and> ''both'' \<in> VALID_SIDES
   \<and> validate_entries (JList [JObj (example_lock ''sodium.jar'')]) ''mods.lock.json''
       = Inr [JObj (example_lock ''sodium.jar'')]
   \<and> snd (resolve_entries registry_example lib_example [example_ref ''delta'', example_ref ''gamma'']
          ''1.20.1'' ''fabric'' ''mods'' True []) = Inr [example_lock ''gamma.jar'', example_lock ''Gamma.jar'']
   \<and> list_all (\<lambda>entry. ref_side entry \<in> VALID_SIDES) [example_ref ''delta'', example_ref ''gamma'']
   \<and> validate_entries (JList (map JObj [example_lock ''gamma.jar'', example_lock ''Gamma.jar'']))
        ''mods.lock.json'' = Inr (map JObj [example_lock ''gamma.jar'', example_lock ''Gamma.jar''])"
proof -
  have v: "''both'' \<in> VALID_SIDES" by (simp add: VALID_SIDES_def)
  have s: "list_all (\<lambda>entry. ref_side entry \<in> VALID_SIDES) [example_ref ''delta'', example_ref ''gamma'']"
    by (simp add: VALID_SIDES_def example_ref_def)
  show ?thesis
    using example_file_entry example_resolution v s
      build_lock_entry_passes_validation
        [of "[(''filename'', JStr ''sodium.jar''), (''url'', JStr ''https://cdn.example/sodium.jar''),
              (''size'', JInt 12345), (''hashes'', JObj [(''sha512'', JStr ''abc'')]), (''primary'', JBool True)]"
            "''both''" "example_lock ''sodium.jar''" "''mods.lock.json''"
            registry_example lib_example "[example_ref ''delta'', example_ref ''gamma'']"
            "''1.20.1''" "''fabric''" "''mods''" True "[]"
            "[example_lock ''gamma.jar'', example_lock ''Gamma.jar'']"]
    by blast
qed

subsection \<open>File name collisions\<close>

lemma distinct_filename_of_str:
  assumes "list_all2 (\<lambda>entry le. lock_entry_of rq lib minecraft loader entry = Inr le) entries les"
  shows "distinct (map filename_of les) \<longleftrightarrow> distinct (map filename_str les)"
proof -
  have "map filename_of les = map JStr (map filename_str les)"
    using list_all2_lock_entry_filename [OF assms] by simp
  then show ?thesis by (simp add: distinct_map inj_on_def del: map_map)
qed

lemma resolve_entries_complete:
  assumes "snd (resolve_entries rq lib entries minecraft loader label require_loader log) = Inr out"
  shows "length out = length entries \<and> distinct (map filename_str out) \<and>
        (\<exists>les'. list_all2 (\<lambda>entry le. lock_entry_of rq lib minecraft
                   (if require_loader then Some loader else None) entry = Inr le) entries les' \<and>
                mset out = mset les')"
proof -
  from resolve_entries_Inr [OF assms] obtain les where
    l: "list_all2 (\<lambda>entry le. lock_entry_of rq lib minecraft
                        (if require_loader then Some loader else None) entry = Inr le) entries les" and
    d: "distinct (map filename_of les)" and
    o: "out = sort_key (\<lambda>x. str_lower lib (filename_str x)) les" by blast
  have m: "mset out = mset les" by (simp add: o)
  have "distinct (map filename_str les)" using d distinct_filename_of_str [OF l] by simp
  moreover have "mset (map filename_str out) = mset (map filename_str les)" using m by simp
  ultimately have "distinct (map filename_str out)" by (metis mset_eq_imp_distinct_iff)
  moreover have "length out = length entries"
    using l by (simp add: o list_all2_lengthD)
  ultimately show ?thesis using l m by blast
qed

lemma resolve_entries_duplicate_str:
  assumes "list_all2 (\<lambda>entry le. lock_entry_of rq lib minecraft
                 (if require_loader then Some loader else None) entry = Inr le) pre les"
    and "\<not> distinct (map filename_str les)"
  shows "\<exists>name i j. i < j \<and> j < length les \<and> filename_str (les ! i) = name \<and> filename_str (les ! j) = name \<and>
         snd (resolve_entries rq lib (pre @ rest) minecraft loader label require_loader log) =
           Inl (ValueError (''Duplicate resolved filename '' @ squote name @ '' in '' @ label @
                            ''; this is ambiguous''))"
proof -
  have d: "\<not> distinct (map filename_of les)"
    using assms distinct_filename_of_str by blast
  from resolve_entries_duplicate [OF assms(1) d, where rest = rest and label = label and log = log]
  obtain name i j where ij: "i < j" "j < length les"
    and fi: "filename_of (les ! i) = JStr name" and fj: "filename_of (les ! j) = JStr name"
    and r: "snd (resolve_entries rq lib (pre @ rest) minecraft loader label require_loader log)
             = Inl (duplicate_error label name)" by blast
  have "filename_str (les ! i) = name" "filename_str (les ! j) = name"
    using fi fj by (simp_all add: filename_of_def filename_str_def)
  with ij r show ?thesis unfolding duplicate_error_def by blast
qed

text \<open>
  C4 (as the code has it). If the references up to some point of a category resolve one
  by one and two of their lock entries have the same file name, compared as strings and
  so case-sensitively, the resolution of the category raises the error
  ``Duplicate resolved filename '<name>' in <label>; this is ambiguous'', which names the
  file name and the category. A resolution that succeeds returns one lock entry for each
  reference, with pairwise distinct file names: none is dropped or overwritten.
\<close>

theorem resolve_entries_duplicate_filename:
  "(list_all2 (\<lambda>entry le. lock_entry_of rq lib minecraft
                 (if require_loader then Some loader else None) entry = Inr le) pre les \<and>
    \<not> distinct (map filename_str les) \<longrightarrow>
      (\<exists>name i j. i < j \<and> j < length les \<and> filename_str (les ! i) = name \<and> filename_str (les ! j) = name \<and>
         snd (resolve_entries rq lib (pre @ rest) minecraft loader label require_loader log) =
           Inl (ValueError (''Duplicate resolved filename '' @ squote name @ '' in '' @ label @
                            ''; this is ambiguous''))))
   \<and> (snd (resolve_entries rq lib entries minecraft loader label require_loader log) = Inr out \<longrightarrow>
        length out = length entries \<and> distinct (map filename_str out) \<and>
        (\<exists>les'. list_all2 (\<lambda>entry le. lock_entry_of rq lib minecraft
                   (if require_loader then Some loader else None) entry = Inr le) entries les' \<and>
                mset out = mset les'))"
  using resolve_entries_duplicate_str [of rq lib minecraft require_loader loader pre les rest label log]
    resolve_entries_complete [of rq lib entries minecraft loader label require_loader log out]
  by blast

lemma example_locks_shared:
  "list_all2 (\<lambda>entry le. lock_entry_of registry_example lib_example ''1.20.1''
                 (if True then Some ''fabric'' else None) entry = Inr le)
     [example_ref ''alpha'', example_ref ''beta''] [example_lock ''shared.jar'', example_lock ''shared.jar'']"
  by code_simp

theorem resolve_entries_duplicate_filename_witness:
  "list_all2 (\<lambda>entry le. lock_entry_of registry_example lib_example ''1.20.1''
                 (if True then Some ''fabric'' else None) entry = Inr le)
     [example_ref ''alpha'', example_ref ''beta''] [example_lock ''shared.jar'', example_lock ''shared.jar'']
   \<and> \<not> distinct (map filename_str [example_lock ''shared.jar'', example_lock ''shared.jar''])
   \<and> (\<exists>name i j. i < j \<and> j < length [example_lock ''shared.jar'', example_lock ''shared.jar''] \<and>
         filename_str ([example_lock ''shared.jar'', example_lock ''shared.jar''] ! i) = name \<and>
         filename_str ([example_lock ''shared.jar'', example_lock ''shared.jar''] ! j) = name \<and>
         snd (resolve_entries registry_example lib_example
                ([example_ref ''alpha'', example_ref ''beta''] @ [example_ref ''gamma''])
                ''1.20.1'' ''fabric'' ''mods'' True []) =
           Inl (ValueError (''Duplicate resolved filename '' @ squote name @ '' in '' @ ''mods'' @
                            ''; this is ambiguous'')))
   \<and> snd (resolve_entries registry_example lib_example [example_ref ''delta'', example_ref ''gamma'']
          ''1.20.1'' ''fabric'' ''mods'' True []) = Inr [example_lock ''gamma.jar'', example_lock ''Gamma.jar'']
   \<and> length [example_lock ''gamma.jar'', example_lock ''Gamma.jar''] =
       length [example_ref ''delta'', example_ref ''gamma'']
   \<and> distinct (map filename_str [example_lock ''gamma.jar'', example_lock ''Gamma.jar''])"
proof -
  have d: "\<not> distinct (map filename_str [example_lock ''shared.jar'', example_lock ''shared.jar''])"
    by simp
  show ?thesis
    using example_locks_shared d example_resolution
      resolve_entries_duplicate_filename
        [of registry_example lib_example "''1.20.1''" True "''fabric''"
            "[example_ref ''alpha'', example_ref ''beta'']"
            "[example_lock ''shared.jar'', example_lock ''shared.jar'']"
            "[example_ref ''gamma'']" "''mods''" "[]"
            "[example_ref ''delta'', example_ref ''gamma'']"
            "[example_lock ''gamma.jar'', example_lock ''Gamma.jar'']"]
    by blast
qed

text \<open>
  The message of the collision error names neither of the two references: for the
  references to \<open>alpha\<close> and \<open>beta\<close> it contains neither project id, and so neither URL.
\<close>

theorem duplicate_message_counterexample:
  "snd (resolve_entries registry_example lib_example [example_ref ''alpha'', example_ref ''beta'']
          ''1.20.1'' ''fabric'' ''mods'' True [])
     = Inl (ValueError ''Duplicate resolved filename 'shared.jar' in mods; this is ambiguous'')
   \<and> \<not> sublist ''alpha'' ''Duplicate resolved filename 'shared.jar' in mods; this is ambiguous''
   \<and> \<not> sublist ''beta'' ''Duplicate resolved filename 'shared.jar' in mods; this is ambiguous''"
  by code_simp

subsection \<open>Order and determinism of a manifest\<close>

text \<open>
  C7. The manifest of a successful category resolution is sorted by the lowered file
  name, and its file names are pairwise distinct as strings; references that resolve one
  by one to entries with pairwise distinct file names, whatever their case, always
  succeed, with the stable sort of these entries as manifest. The result is decided by the
  answers of the registry to the requests of the references: a registry that answers
  those requests alike gives the same result, whatever was requested before.
\<close>

theorem resolve_entries_sorted_deterministic:
  assumes "list_all (\<lambda>entry. list_all (\<lambda>u. rq' u = rq u) (requests_of lib entry)) entries"
  shows "snd (resolve_entries rq' lib entries minecraft loader label require_loader log') =
         snd (resolve_entries rq lib entries minecraft loader label require_loader log)
     \<and> (\<forall>out. snd (resolve_entries rq lib entries minecraft loader label require_loader log) = Inr out \<longrightarrow>
            sorted (map (\<lambda>x. str_lower lib (filename_str x)) out) \<and> distinct (map filename_str out))
     \<and> (\<forall>les. list_all2 (\<lambda>entry le. lock_entry_of rq lib minecraft
                   (if require_loader then Some loader else None) entry = Inr le) entries les \<and>
              distinct (map filename_str les) \<longrightarrow>
            snd (resolve_entries rq lib entries minecraft loader label require_loader log) =
              Inr (sort_key (\<lambda>x. str_lower lib (filename_str x)) les))"
proof -
  have "resolve_entries_loop rq' lib minecraft loader label require_loader [] {} entries [] =
        resolve_entries_loop rq lib minecraft loader label require_loader [] {} entries []"
    using assms by (intro resolve_entries_loop_agree) (auto simp: list_all_iff)
  then have "resolve_entries rq' lib entries minecraft loader label require_loader [] =
             resolve_entries rq lib entries minecraft loader label require_loader []"
    by (simp add: resolve_entries_def)
  then have p1: "snd (resolve_entries rq' lib entries minecraft loader label require_loader log') =
         snd (resolve_entries rq lib entries minecraft loader label require_loader log)"
    using resolve_entries_log [of rq' lib entries minecraft loader label require_loader log']
      resolve_entries_log [of rq lib entries minecraft loader label require_loader log]
    by simp
  have p2: "sorted (map (\<lambda>x. str_lower lib (filename_str x)) out) \<and> distinct (map filename_str out)"
    if r: "snd (resolve_entries rq lib entries minecraft loader label require_loader log) = Inr out" for out
  proof -
    from resolve_entries_Inr [OF r] obtain les where
      o: "out = sort_key (\<lambda>x. str_lower lib (filename_str x)) les" by blast
    have "sorted (map (\<lambda>x. str_lower lib (filename_str x)) out)"
      unfolding o by (rule sorted_sort_key)
    then show ?thesis using resolve_entries_complete [OF r] by blast
  qed
  have p3: "snd (resolve_entries rq lib entries minecraft loader label require_loader log) =
              Inr (sort_key (\<lambda>x. str_lower lib (filename_str x)) les)"
    if a: "list_all2 (\<lambda>entry le. lock_entry_of rq lib minecraft
                   (if require_loader then Some loader else None) entry = Inr le) entries les \<and>
              distinct (map filename_str les)" for les
  proof -
    from a have l: "list_all2 (\<lambda>entry le. lock_entry_of rq lib minecraft
                   (if require_loader then Some loader else None) entry = Inr le) entries les"
      and d: "distinct (map filename_str les)" by simp_all
    have "distinct (map filename_of les)" using distinct_filename_of_str [OF l] d by simp
    with l show ?thesis by (rule resolve_entries_ok)
  qed
  show ?thesis
  proof (intro conjI allI impI)
    show "snd (resolve_entries rq' lib entries minecraft loader label require_loader log') =
          snd (resolve_entries rq lib entries minecraft loader label require_loader log)"
      by (rule p1)
  next
    fix out
    assume "snd (resolve_entries rq lib entries minecraft loader label require_loader log) = Inr out"
    from p2 [OF this]
    show "sorted (map (\<lambda>x. str_lower lib (filename_str x)) out)"
      and "distinct (map filename_str out)" by simp_all
  next
    fix les
    assume "list_all2 (\<lambda>entry le. lock_entry_of rq lib minecraft
                   (if require_loader then Some loader else None) entry = Inr le) entries les \<and>
              distinct (map filename_str les)"
    then show "snd (resolve_entries rq lib entries minecraft loader label require_loader log) =
              Inr (sort_key (\<lambda>x. str_lower lib (filename_str x)) les)"
      by (rule p3)
  qed
qed

lemma example_requests_agree:
  "list_all (\<lambda>entry. list_all (\<lambda>u. registry_example2 u = registry_example u) (requests_of lib_example entry))
     [example_ref ''delta'', example_ref ''gamma'']"
  by code_simp

text \<open>\<open>Gamma.jar\<close> and \<open>gamma.jar\<close> do not collide, and have the same sort key.\<close>

lemma example_sorted:
  "sorted (map (\<lambda>x. str_lower lib_example (filename_str x)) [example_lock ''gamma.jar'', example_lock ''Gamma.jar''])
   \<and> distinct (map filename_str [example_lock ''gamma.jar'', example_lock ''Gamma.jar''])
   \<and> str_lower lib_example ''Gamma.jar'' = ''gamma.jar''"
  by code_simp

theorem resolve_entries_sorted_deterministic_witness:
  "list_all (\<lambda>entry. list_all (\<lambda>u. registry_example2 u = registry_example u) (requests_of lib_example entry))
     [example_ref ''delta'', example_ref ''gamma'']
   \<and> snd (resolve_entries registry_example2 lib_example [example_ref ''delta'', example_ref ''gamma'']
          ''1.20.1'' ''fabric'' ''mods'' True [''earlier request''])
     = Inr [example_lock ''gamma.jar'', example_lock ''Gamma.jar'']
   \<and> snd (resolve_entries registry_example lib_example [example_ref ''delta'', example_ref ''gamma'']
          ''1.20.1'' ''fabric'' ''mods'' True [])
     = Inr [example_lock ''gamma.jar'', example_lock ''Gamma.jar'']
   \<and> sorted (map (\<lambda>x. str_lower lib_example (filename_str x))
        [example_lock ''gamma.jar'', example_lock ''Gamma.jar''])
   \<and> distinct (map filename_str [example_lock ''gamma.jar'', example_lock ''Gamma.jar''])"
proof -
  note t = resolve_entries_sorted_deterministic
             [OF example_requests_agree, of "''1.20.1''" "''fabric''" "''mods''" True
                "[''earlier request'']" "[]"]
  from t have "snd (resolve_entries registry_example2 lib_example [example_ref ''delta'', example_ref ''gamma'']
          ''1.20.1'' ''fabric'' ''mods'' True [''earlier request''])
       = snd (resolve_entries registry_example lib_example [example_ref ''delta'', example_ref ''gamma'']
          ''1.20.1'' ''fabric'' ''mods'' True [])" by (rule conjunct1)
  moreover from t have "sorted (map (\<lambda>x. str_lower lib_example (filename_str x))
        [example_lock ''gamma.jar'', example_lock ''Gamma.jar''])
     \<and> distinct (map filename_str [example_lock ''gamma.jar'', example_lock ''Gamma.jar''])"
    using example_resolution by blast
  ultimately show ?thesis using example_requests_agree example_resolution by simp
qed

subsection \<open>The run: check mode\<close>

lemma main_unfold:
  "main rq lib a d w =
     main_loop rq lib a d (targets_of a) [''mods'', ''resourcepacks'', ''shaderpacks''] (after_template a d w)"
  by (simp add: main_def targets_of_def after_template_def Let_def)

lemma resolve_category_log:
  "resolve_category rq lib a d target log =
     (log @ fst (resolve_category rq lib a d target []), snd (resolve_category rq lib a d target []))"
  unfolding resolve_category_def by (rule resolve_entries_log)

lemma main_loop_skip:
  "target \<notin> set targets \<Longrightarrow>
   main_loop rq lib a d targets (target # rest) w = main_loop rq lib a d targets rest w"
  by simp

lemma main_loop_step:
  "target \<in> set targets \<Longrightarrow>
   main_loop rq lib a d targets (target # rest) w =
     (case snd (resolve_category rq lib a d target []) of
        Inl e \<Rightarrow> (w\<lparr>net_requests := net_requests w @ fst (resolve_category rq lib a d target [])\<rparr>, Inl e)
      | Inr resolved \<Rightarrow>
          main_loop rq lib a d targets rest
            ((if arg_check a then (\<lambda>w. w)
              else write_json (snd (locks a d target)) (JList (map JObj resolved)))
               (w\<lparr>net_requests := net_requests w @ fst (resolve_category rq lib a d target [])\<rparr>)))"
  using resolve_category_log [of rq lib a d target "net_requests w"]
  by (simp add: resolve_category_def split_beta split: sum.splits)

lemma resolve_category_check:
  "resolve_category rq lib (a\<lparr>arg_check := b\<rparr>) d target log = resolve_category rq lib a d target log"
  by (simp add: resolve_category_def locks_def)

lemma main_loop_check:
  assumes "net_requests w' = net_requests w"
  shows "fs_files (fst (main_loop rq lib (a\<lparr>arg_check := True\<rparr>) d targets cats w)) = fs_files w
       \<and> snd (main_loop rq lib (a\<lparr>arg_check := True\<rparr>) d targets cats w) =
           snd (main_loop rq lib (a\<lparr>arg_check := False\<rparr>) d targets cats w')
       \<and> net_requests (fst (main_loop rq lib (a\<lparr>arg_check := True\<rparr>) d targets cats w)) =
           net_requests (fst (main_loop rq lib (a\<lparr>arg_check := False\<rparr>) d targets cats w'))"
  using assms
proof (induction cats arbitrary: w w')
  case Nil
  then show ?case by simp
next
  case (Cons target rest)
  show ?case
  proof (cases "target \<in> set targets")
    case False
    then show ?thesis using Cons.IH [OF Cons.prems] by (simp del: main_loop.simps add: main_loop_skip)
  next
    case True
    let ?reqs = "fst (resolve_category rq lib a d target [])"
    show ?thesis
    proof (cases "snd (resolve_category rq lib a d target [])")
      case (Inl e)
      then show ?thesis
        using True Cons.prems
        by (simp del: main_loop.simps add: main_loop_step resolve_category_check)
    next
      case (Inr resolved)
      let ?w1 = "w\<lparr>net_requests := net_requests w @ ?reqs\<rparr>"
      let ?w1' = "write_json (snd (locks a d target)) (JList (map JObj resolved))
                    (w'\<lparr>net_requests := net_requests w' @ ?reqs\<rparr>)"
      have n: "net_requests ?w1' = net_requests ?w1"
        using Cons.prems by (simp add: write_json_def)
      have l: "locks (a\<lparr>arg_check := False\<rparr>) d target = locks a d target"
        by (simp add: locks_def)
      show ?thesis
        using True Inr Cons.IH [OF n]
        by (simp del: main_loop.simps add: main_loop_step resolve_category_check l)
    qed
  qed
qed

text \<open>
  C9. A run in check mode leaves every file as it was, ends with the same result (the same
  error, or success) as the full run from the same state, and sends the same requests.
\<close>

theorem check_mode_writes_nothing:
  "fs_files (fst (main rq lib (a\<lparr>arg_check := True\<rparr>) d w)) = fs_files w
   \<and> snd (main rq lib (a\<lparr>arg_check := True\<rparr>) d w) = snd (main rq lib (a\<lparr>arg_check := False\<rparr>) d w)
   \<and> net_requests (fst (main rq lib (a\<lparr>arg_check := True\<rparr>) d w)) =
       net_requests (fst (main rq lib (a\<lparr>arg_check := False\<rparr>) d w))"
proof -
  have t: "targets_of (a\<lparr>arg_check := b\<rparr>) = targets_of a" for b
    by (simp add: targets_of_def)
  have c: "after_template (a\<lparr>arg_check := True\<rparr>) d w = w"
    by (simp add: after_template_def)
  have n: "net_requests (after_template (a\<lparr>arg_check := False\<rparr>) d w) = net_requests w"
    by (simp add: after_template_def write_json_def)
  show ?thesis
    unfolding main_unfold t c
    using main_loop_check [OF n, of rq lib a d "targets_of a" "[''mods'', ''resourcepacks'', ''shaderpacks'']"]
    by simp
qed

subsection \<open>The run: failures\<close>

lemma resolve_entries_loop_requests:
  "\<exists>n\<le>length entries.
     fst (resolve_entries_loop rq lib minecraft loader label require_loader resolved seen entries []) =
       concat (map (requests_of lib) (take n entries)) \<and>
     (case snd (resolve_entries_loop rq lib minecraft loader label require_loader resolved seen entries []) of
        Inr out \<Rightarrow> n = length entries
      | Inl e \<Rightarrow> 0 < n \<and>
          list_all (\<lambda>entry. \<not> isl (lock_entry_of rq lib minecraft
                                      (if require_loader then Some loader else None) entry))
            (take (n - 1) entries))"
proof (induction entries arbitrary: resolved seen)
  case Nil
  show ?case by simp
next
  case (Cons entry entries)
  let ?lo = "if require_loader then Some loader else None"
  show ?case
  proof (cases "lock_entry_of rq lib minecraft ?lo entry")
    case (Inl e)
    then have "resolve_entries_loop rq lib minecraft loader label require_loader resolved seen
                 (entry # entries) [] = (requests_of lib entry, Inl e)"
      by (simp add: resolve_entries_loop_step del: resolve_entries_loop.simps)
    then show ?thesis by (intro exI [of _ 1]) simp
  next
    case (Inr le)
    show ?thesis
    proof (cases "filename_of le \<in> seen")
      case True
      with Inr have "resolve_entries_loop rq lib minecraft loader label require_loader resolved seen
                 (entry # entries) [] =
               (requests_of lib entry, Inl (duplicate_error label (filename_str le)))"
        by (simp add: resolve_entries_loop_step del: resolve_entries_loop.simps)
      then show ?thesis by (intro exI [of _ 1]) simp
    next
      case False
      let ?rest = "resolve_entries_loop rq lib minecraft loader label require_loader (resolved @ [le])
                     (insert (filename_of le) seen) entries []"
      have s: "resolve_entries_loop rq lib minecraft loader label require_loader resolved seen
                 (entry # entries) [] = (requests_of lib entry @ fst ?rest, snd ?rest)"
        using Inr False
          resolve_entries_loop_log [of rq lib minecraft loader label require_loader "resolved @ [le]"
            "insert (filename_of le) seen" entries "requests_of lib entry"]
        by (simp add: resolve_entries_loop_step del: resolve_entries_loop.simps)
      from Cons.IH [of "resolved @ [le]" "insert (filename_of le) seen"]
      obtain n where n: "n \<le> length entries"
        and f: "fst ?rest = concat (map (requests_of lib) (take n entries))"
        and c: "(case snd ?rest of
                  Inr out \<Rightarrow> n = length entries
                | Inl e \<Rightarrow> 0 < n \<and>
                    list_all (\<lambda>entry. \<not> isl (lock_entry_of rq lib minecraft ?lo entry))
                      (take (n - 1) entries))" by blast
      have c': "(case snd ?rest of
                  Inr out \<Rightarrow> Suc n = length (entry # entries)
                | Inl e \<Rightarrow> 0 < Suc n \<and>
                    list_all (\<lambda>entry. \<not> isl (lock_entry_of rq lib minecraft ?lo entry))
                      (take (Suc n - 1) (entry # entries)))"
      proof (cases "snd ?rest")
        case (Inl e)
        with c have "0 < n" and
          "list_all (\<lambda>entry. \<not> isl (lock_entry_of rq lib minecraft ?lo entry)) (take (n - 1) entries)"
          by simp_all
        then have "list_all (\<lambda>entry. \<not> isl (lock_entry_of rq lib minecraft ?lo entry))
                     (take n (entry # entries))"
          using Inr by (cases n) simp_all
        with Inl show ?thesis by simp
      next
        case (Inr out)
        with c show ?thesis by simp
      qed
      show ?thesis
        unfolding s using n f c' by (intro exI [of _ "Suc n"]) simp
    qed
  qed
qed

lemma resolve_category_requests:
  "\<exists>n\<le>length (fst (locks a d target)).
     fst (resolve_category rq lib a d target []) =
       concat (map (requests_of lib) (take n (fst (locks a d target)))) \<and>
     (case snd (resolve_category rq lib a d target []) of
        Inr out \<Rightarrow> n = length (fst (locks a d target))
      | Inl e \<Rightarrow> 0 < n \<and>
          list_all (\<lambda>entry. \<not> isl (lock_entry_of rq lib (decl_minecraft d)
                                      (if target = ''mods'' then Some (decl_loader d) else None) entry))
            (take (n - 1) (fst (locks a d target))))"
proof -
  let ?loop = "resolve_entries_loop rq lib (decl_minecraft d) (decl_loader d) target (target = ''mods'')
                 [] {} (fst (locks a d target)) []"
  have f: "fst (resolve_category rq lib a d target []) = fst ?loop"
    by (simp add: resolve_category_def resolve_entries_def split_beta split: sum.splits)
  have s: "isl (snd (resolve_category rq lib a d target [])) \<longleftrightarrow> isl (snd ?loop)"
  proof (cases "snd ?loop")
    case (Inl e)
    then show ?thesis
      by (simp add: resolve_category_def resolve_entries_def split_beta)
  next
    case (Inr resolved)
    have "snd (resolve_entries_loop rq lib (decl_minecraft d) (decl_loader d) target (target = ''mods'')
                 [] {} (fst (locks a d target)) []) = Inr resolved" by (rule Inr)
    from resolve_entries_loop_Inr [OF this] obtain les where
      l: "list_all2 (\<lambda>entry le. lock_entry_of rq lib (decl_minecraft d)
                        (if target = ''mods'' then Some (decl_loader d) else None) entry = Inr le)
            (fst (locks a d target)) les" and r: "resolved = les" by auto
    have "sort_by_filename lib resolved =
            Inr (sort_key (\<lambda>x. str_lower lib (filename_str x)) resolved)"
      unfolding r using list_all2_lock_entry_filename [OF l] by (intro sort_by_filename_ok) blast
    with Inr show ?thesis
      by (simp add: resolve_category_def resolve_entries_def split_beta)
  qed
  from resolve_entries_loop_requests
         [of "fst (locks a d target)" rq lib "decl_minecraft d" "decl_loader d" target "target = ''mods''" "[]" "{}"]
  obtain n where n: "n \<le> length (fst (locks a d target))"
    and r: "fst ?loop = concat (map (requests_of lib) (take n (fst (locks a d target))))"
    and c: "(case snd ?loop of
        Inr out \<Rightarrow> n = length (fst (locks a d target))
      | Inl e \<Rightarrow> 0 < n \<and>
          list_all (\<lambda>entry. \<not> isl (lock_entry_of rq lib (decl_minecraft d)
                                      (if target = ''mods'' then Some (decl_loader d) else None) entry))
            (take (n - 1) (fst (locks a d target))))" by blast
  have c': "(case snd (resolve_category rq lib a d target []) of
        Inr out \<Rightarrow> n = length (fst (locks a d target))
      | Inl e \<Rightarrow> 0 < n \<and>
          list_all (\<lambda>entry. \<not> isl (lock_entry_of rq lib (decl_minecraft d)
                                      (if target = ''mods'' then Some (decl_loader d) else None) entry))
            (take (n - 1) (fst (locks a d target))))"
    using c s by (cases "snd ?loop"; cases "snd (resolve_category rq lib a d target [])") simp_all
  have r': "fst (resolve_category rq lib a d target []) =
       concat (map (requests_of lib) (take n (fst (locks a d target))))"
    using f r by (rule trans)
  show ?thesis
    by (intro exI [of _ n] conjI) (rule n, rule r', rule c')
qed

lemma main_loop_failure:
  assumes "snd (main_loop rq lib a d targets cats w) = Inl e"
  shows "\<exists>before c rest w1. cats = before @ c # rest \<and> c \<in> set targets \<and>
           main_loop rq lib a d targets before w = (w1, Inr 0) \<and>
           snd (resolve_category rq lib a d c []) = Inl e \<and>
           fst (main_loop rq lib a d targets cats w) =
             w1\<lparr>net_requests := net_requests w1 @ fst (resolve_category rq lib a d c [])\<rparr>"
  using assms
proof (induction cats arbitrary: w)
  case Nil
  then show ?case by simp
next
  case (Cons target cats)
  show ?case
  proof (cases "target \<in> set targets")
    case False
    then have s: "main_loop rq lib a d targets (target # xs) v = main_loop rq lib a d targets xs v" for xs v
      by simp
    from Cons.prems have "snd (main_loop rq lib a d targets cats w) = Inl e" by (simp only: s)
    from Cons.IH [OF this] obtain before c rest w1 where
      "cats = before @ c # rest" "c \<in> set targets"
      "main_loop rq lib a d targets before w = (w1, Inr 0)"
      "snd (resolve_category rq lib a d c []) = Inl e"
      "fst (main_loop rq lib a d targets cats w) =
             w1\<lparr>net_requests := net_requests w1 @ fst (resolve_category rq lib a d c [])\<rparr>" by blast
    then have "target # cats = (target # before) @ c # rest \<and> c \<in> set targets \<and>
           main_loop rq lib a d targets (target # before) w = (w1, Inr 0) \<and>
           snd (resolve_category rq lib a d c []) = Inl e \<and>
           fst (main_loop rq lib a d targets (target # cats) w) =
             w1\<lparr>net_requests := net_requests w1 @ fst (resolve_category rq lib a d c [])\<rparr>"
      by (simp only: s) simp
    then show ?thesis by blast
  next
    case True
    note st = main_loop_step [OF True, of rq lib a d]
    show ?thesis
    proof (cases "snd (resolve_category rq lib a d target [])")
      case (Inl e')
      with Cons.prems have "e' = e" by (simp add: st del: main_loop.simps(2))
      with Inl have "target # cats = [] @ target # cats \<and> target \<in> set targets \<and>
           main_loop rq lib a d targets [] w = (w, Inr 0) \<and>
           snd (resolve_category rq lib a d target []) = Inl e \<and>
           fst (main_loop rq lib a d targets (target # cats) w) =
             w\<lparr>net_requests := net_requests w @ fst (resolve_category rq lib a d target [])\<rparr>"
        using True by (simp add: st del: main_loop.simps(2))
      then show ?thesis by blast
    next
      case (Inr resolved)
      let ?w2 = "(if arg_check a then (\<lambda>w. w)
              else write_json (snd (locks a d target)) (JList (map JObj resolved)))
               (w\<lparr>net_requests := net_requests w @ fst (resolve_category rq lib a d target [])\<rparr>)"
      have s: "main_loop rq lib a d targets (target # xs) w = main_loop rq lib a d targets xs ?w2" for xs
        using Inr by (simp add: st del: main_loop.simps)
      from Cons.prems have "snd (main_loop rq lib a d targets cats ?w2) = Inl e" by (simp only: s)
      from Cons.IH [OF this] obtain before c rest w1 where
        "cats = before @ c # rest" "c \<in> set targets"
        "main_loop rq lib a d targets before ?w2 = (w1, Inr 0)"
        "snd (resolve_category rq lib a d c []) = Inl e"
        "fst (main_loop rq lib a d targets cats ?w2) =
             w1\<lparr>net_requests := net_requests w1 @ fst (resolve_category rq lib a d c [])\<rparr>" by blast
      then have "target # cats = (target # before) @ c # rest \<and> c \<in> set targets \<and>
           main_loop rq lib a d targets (target # before) w = (w1, Inr 0) \<and>
           snd (resolve_category rq lib a d c []) = Inl e \<and>
           fst (main_loop rq lib a d targets (target # cats) w) =
             w1\<lparr>net_requests := net_requests w1 @ fst (resolve_category rq lib a d c [])\<rparr>"
        by (simp only: s) simp
      then show ?thesis by blast
    qed
  qed
qed

lemma main_loop_untargeted:
  "set cats \<inter> set targets = {} \<Longrightarrow> main_loop rq lib a d targets cats w = (w, Inr 0)"
  by (induction cats) auto

text \<open>
  C8 (as the code has it). A run that ends with an error \<open>e\<close> stopped in one targeted
  category \<open>c\<close>: the targeted categories before \<open>c\<close> were resolved and, outside check mode,
  written; the resolution of \<open>c\<close> raised \<open>e\<close>; the files are those of the moment before \<open>c\<close>
  was resolved, so neither the lock of \<open>c\<close> nor that of a later category was written; and
  the requests sent for \<open>c\<close> are those of its first \<open>n\<close> references, one each in declaration
  order, the first \<open>n - 1\<close> of which resolve, so the failing reference was asked once and
  nothing was asked after it. A failing run whose target is not \<open>all\<close> writes no file.
\<close>

theorem main_failure_aborts:
  assumes "snd (main rq lib a d w) = Inl e"
  shows "\<exists>before c rest w1 n.
           [''mods'', ''resourcepacks'', ''shaderpacks''] = before @ c # rest \<and>
           c \<in> set (targets_of a) \<and>
           main_loop rq lib a d (targets_of a) before (after_template a d w) = (w1, Inr 0) \<and>
           snd (resolve_category rq lib a d c (net_requests w1)) = Inl e \<and>
           fs_files (fst (main rq lib a d w)) = fs_files w1 \<and>
           0 < n \<and> n \<le> length (fst (locks a d c)) \<and>
           list_all (\<lambda>entry. \<not> isl (lock_entry_of rq lib (decl_minecraft d)
                                      (if c = ''mods'' then Some (decl_loader d) else None) entry))
             (take (n - 1) (fst (locks a d c))) \<and>
           net_requests (fst (main rq lib a d w)) =
             net_requests w1 @ concat (map (requests_of lib) (take n (fst (locks a d c)))) \<and>
           (arg_target a \<noteq> ''all'' \<longrightarrow> fs_files (fst (main rq lib a d w)) = fs_files w)"
proof -
  let ?cats = "[''mods'', ''resourcepacks'', ''shaderpacks'']"
  let ?w0 = "after_template a d w"
  from assms have "snd (main_loop rq lib a d (targets_of a) ?cats ?w0) = Inl e"
    by (simp only: main_unfold)
  from main_loop_failure [OF this] obtain before c rest w1 where
    cs: "?cats = before @ c # rest" and ct: "c \<in> set (targets_of a)" and
    b: "main_loop rq lib a d (targets_of a) before ?w0 = (w1, Inr 0)" and
    r: "snd (resolve_category rq lib a d c []) = Inl e" and
    f: "fst (main_loop rq lib a d (targets_of a) ?cats ?w0) =
          w1\<lparr>net_requests := net_requests w1 @ fst (resolve_category rq lib a d c [])\<rparr>"
    by blast
  from resolve_category_requests [of a d c rq lib] obtain n where
    n: "n \<le> length (fst (locks a d c))" and
    q: "fst (resolve_category rq lib a d c []) = concat (map (requests_of lib) (take n (fst (locks a d c))))" and
    k: "(case snd (resolve_category rq lib a d c []) of
        Inr out \<Rightarrow> n = length (fst (locks a d c))
      | Inl e \<Rightarrow> 0 < n \<and>
          list_all (\<lambda>entry. \<not> isl (lock_entry_of rq lib (decl_minecraft d)
                                      (if c = ''mods'' then Some (decl_loader d) else None) entry))
            (take (n - 1) (fst (locks a d c))))" by blast
  from k r have n0: "0 < n" and
    pr: "list_all (\<lambda>entry. \<not> isl (lock_entry_of rq lib (decl_minecraft d)
                                      (if c = ''mods'' then Some (decl_loader d) else None) entry))
            (take (n - 1) (fst (locks a d c)))" by simp_all
  have r': "snd (resolve_category rq lib a d c (net_requests w1)) = Inl e"
    using r resolve_category_log [of rq lib a d c "net_requests w1"] by simp
  have fm: "fst (main rq lib a d w) =
              w1\<lparr>net_requests := net_requests w1 @ fst (resolve_category rq lib a d c [])\<rparr>"
    using f by (simp only: main_unfold)
  have ff: "fs_files (fst (main rq lib a d w)) = fs_files w1" by (simp add: fm)
  have fr: "net_requests (fst (main rq lib a d w)) =
             net_requests w1 @ concat (map (requests_of lib) (take n (fst (locks a d c))))"
    by (simp add: fm q)
  have single: "fs_files (fst (main rq lib a d w)) = fs_files w" if na: "arg_target a \<noteq> ''all''"
  proof -
    from na ct have t: "targets_of a = [c]" by (simp add: targets_of_def)
    have "distinct ?cats" by simp
    then have "distinct (before @ c # rest)" by (simp only: cs)
    then have nb: "c \<notin> set before" by simp
    then have "set before \<inter> set (targets_of a) = {}" by (simp add: t)
    from main_loop_untargeted [OF this, of rq lib a d ?w0] b have w1: "w1 = ?w0" by simp
    have "c \<in> set ?cats" by (subst cs) simp
    then have "c \<noteq> ''template''" by auto
    then have "?w0 = w" by (simp add: after_template_def t)
    with w1 ff show ?thesis by simp
  qed
  show ?thesis
    using cs ct b r' ff n0 n pr fr single by blast
qed

lemma example_run_fails:
  "snd (main registry_example lib_example args_example decl_example world_empty) =
     Inl (RuntimeError ''Modrinth API returned 404 for https://api.modrinth.com/v2/project/zeta/version'')"
  by code_simp

lemma example_single_run_fails:
  "snd (main registry_example lib_example (args_example\<lparr>arg_target := ''resourcepacks''\<rparr>)
          decl_example world_empty) =
     Inl (RuntimeError ''Modrinth API returned 404 for https://api.modrinth.com/v2/project/zeta/version'')"
  by code_simp

lemma example_full_run_fails:
  "snd (main registry_example lib_example (args_example\<lparr>arg_check := False\<rparr>) decl_example world_empty) =
     Inl (RuntimeError ''Modrinth API returned 404 for https://api.modrinth.com/v2/project/zeta/version'')"
  by code_simp

theorem main_failure_aborts_witness:
  "snd (main registry_example lib_example args_example decl_example world_empty) =
     Inl (RuntimeError ''Modrinth API returned 404 for https://api.modrinth.com/v2/project/zeta/version'')
   \<and> (\<exists>before c rest w1 n.
           [''mods'', ''resourcepacks'', ''shaderpacks''] = before @ c # rest \<and>
           c \<in> set (targets_of args_example) \<and>
           main_loop registry_example lib_example args_example decl_example (targets_of args_example) before
             (after_template args_example decl_example world_empty) = (w1, Inr 0) \<and>
           snd (resolve_category registry_example lib_example args_example decl_example c (net_requests w1)) =
             Inl (RuntimeError ''Modrinth API returned 404 for https://api.modrinth.com/v2/project/zeta/version'') \<and>
           fs_files (fst (main registry_example lib_example args_example decl_example world_empty)) = fs_files w1 \<and>
           0 < n \<and> n \<le> length (fst (locks args_example decl_example c)) \<and>
           net_requests (fst (main registry_example lib_example args_example decl_example world_empty)) =
             net_requests w1 @ concat (map (requests_of lib_example) (take n (fst (locks args_example decl_example c)))))
   \<and> arg_target (args_example\<lparr>arg_target := ''resourcepacks''\<rparr>) \<noteq> ''all''
   \<and> fs_files (fst (main registry_example lib_example (args_example\<lparr>arg_target := ''resourcepacks''\<rparr>)
                      decl_example world_empty)) = fs_files world_empty"
proof -
  have t: "arg_target (args_example\<lparr>arg_target := ''resourcepacks''\<rparr>) \<noteq> ''all''" by simp
  from main_failure_aborts [OF example_single_run_fails] t
  have s: "fs_files (fst (main registry_example lib_example (args_example\<lparr>arg_target := ''resourcepacks''\<rparr>)
                      decl_example world_empty)) = fs_files world_empty" by blast
  from main_failure_aborts [OF example_run_fails]
  have "\<exists>before c rest w1 n.
           [''mods'', ''resourcepacks'', ''shaderpacks''] = before @ c # rest \<and>
           c \<in> set (targets_of args_example) \<and>
           main_loop registry_example lib_example args_example decl_example (targets_of args_example) before
             (after_template args_example decl_example world_empty) = (w1, Inr 0) \<and>
           snd (resolve_category registry_example lib_example args_example decl_example c (net_requests w1)) =
             Inl (RuntimeError ''Modrinth API returned 404 for https://api.modrinth.com/v2/project/zeta/version'') \<and>
           fs_files (fst (main registry_example lib_example args_example decl_example world_empty)) = fs_files w1 \<and>
           0 < n \<and> n \<le> length (fst (locks args_example decl_example c)) \<and>
           net_requests (fst (main registry_example lib_example args_example decl_example world_empty)) =
             net_requests w1 @ concat (map (requests_of lib_example) (take n (fst (locks args_example decl_example c))))"
    by blast
  with example_run_fails t s show ?thesis by blast
qed

text \<open>
  A failing run can leave a lock written: with the target \<open>all\<close> the mods resolve and their
  lock is written before the resource packs fail.
\<close>

theorem partial_lock_write_counterexample:
  "snd (main registry_example lib_example args_example decl_example world_empty) =
     Inl (RuntimeError ''Modrinth API returned 404 for https://api.modrinth.com/v2/project/zeta/version'')
   \<and> fs_files world_empty ''modpack/mods.lock.json'' = None
   \<and> fs_files (fst (main registry_example lib_example args_example decl_example world_empty))
        ''modpack/mods.lock.json'' = Some (JList [JObj (example_lock ''Gamma.jar'')])"
  by code_simp

theorem check_mode_writes_nothing_witness:
  "fs_files (fst (main registry_example lib_example (args_example\<lparr>arg_check := True\<rparr>) decl_example world_empty))
     = fs_files world_empty
   \<and> snd (main registry_example lib_example (args_example\<lparr>arg_check := True\<rparr>) decl_example world_empty) =
     Inl (RuntimeError ''Modrinth API returned 404 for https://api.modrinth.com/v2/project/zeta/version'')
   \<and> snd (main registry_example lib_example (args_example\<lparr>arg_check := False\<rparr>) decl_example world_empty) =
     Inl (RuntimeError ''Modrinth API returned 404 for https://api.modrinth.com/v2/project/zeta/version'')"
  using check_mode_writes_nothing [of registry_example lib_example args_example decl_example world_empty]
    example_full_run_fails
  by simp

subsection \<open>The filtering policy\<close>








text \<open>With the loader \<open>forge\<close> the example mod has no compatible version, while the same
  project resolves as a resource pack.\<close>

lemma loader_filter_example:
  "snd (main registry_example lib_example (args_example\<lparr>arg_target := ''mods''\<rparr>)
          (decl_example\<lparr>decl_loader := ''forge''\<rparr>) world_empty) =
     Inl (ValueError ''No compatible versions found'')
   \<and> snd (main registry_example lib_example (args_example\<lparr>arg_target := ''resourcepacks''\<rparr>)
          (decl_example\<lparr>decl_loader := ''forge'', decl_resource_packs := [example_ref ''gamma'']\<rparr>) world_empty) =
     Inr 0"
  by code_simp


subsection \<open>Normalisation of project URLs\<close>

lemma split_on_absent: "c \<notin> set s \<Longrightarrow> split_on c s = [s]"
  by (induction s) auto

lemma split_on_nonempty: "split_on c s \<noteq> []"
  by (induction s) (auto split: list.splits)

lemma split_on_parts:
  "part \<in> set (split_on c s) \<Longrightarrow> c \<notin> set part \<and> set part \<subseteq> set s"
proof (induction s arbitrary: part)
  case Nil
  then show ?case by simp
next
  case (Cons x xs)
  show ?case
  proof (cases "x = c")
    case True
    with Cons show ?thesis by auto
  next
    case False
    obtain p ps where ps: "split_on c xs = p # ps"
      using split_on_nonempty [of c xs] by (cases "split_on c xs") auto
    have "p \<in> set (split_on c xs)" and "\<And>q. q \<in> set ps \<Longrightarrow> q \<in> set (split_on c xs)"
      using ps by simp_all
    then have a: "c \<notin> set p \<and> set p \<subseteq> set xs"
      and b: "\<And>q. q \<in> set ps \<Longrightarrow> c \<notin> set q \<and> set q \<subseteq> set xs"
      using Cons.IH by blast+
    from Cons.prems False ps have "part = x # p \<or> part \<in> set ps" by simp
    then show ?thesis using a b False by auto
  qed
qed

lemma path_parts_part:
  "part \<in> set (path_parts p) \<Longrightarrow> part \<noteq> [] \<and> CHR ''/'' \<notin> set part \<and> set part \<subseteq> set p"
  using split_on_parts [of part "CHR ''/''" p] by (auto simp: path_parts_def)

text \<open>
  Normalisation succeeds exactly when the scheme is \<open>http\<close> or \<open>https\<close>, the host is one
  of the two registry hosts and the path has the two non-empty segments \<open>project\<close> and an
  id; the result is then the canonical URL of that id. In every other case it raises.
\<close>

lemma normalize_project_url_Inr:
  "normalize_project_url lib url = Inr r \<longleftrightarrow>
     (\<exists>parsed project_id.
        urlparse lib url = Inr parsed \<and>
        (url_scheme parsed = ''http'' \<or> url_scheme parsed = ''https'') \<and>
        (url_netloc parsed = ''modrinth.com'' \<or> url_netloc parsed = ''www.modrinth.com'') \<and>
        path_parts (url_path parsed) = [''project'', project_id] \<and>
        r = ''https://modrinth.com/project/'' @ project_id)"
proof (cases "urlparse lib url")
  case (Inl e)
  then show ?thesis by (simp add: normalize_project_url_def)
next
  case (Inr parsed)
  show ?thesis
  proof (cases "(url_scheme parsed = ''http'' \<or> url_scheme parsed = ''https'') \<and>
        (url_netloc parsed = ''modrinth.com'' \<or> url_netloc parsed = ''www.modrinth.com'')")
    case False
    then show ?thesis using Inr by (auto simp: normalize_project_url_def)
  next
    case True
    then have "normalize_project_url lib url =
       (case path_parts (url_path parsed) of
               [p0, p1] \<Rightarrow>
                 if p0 \<noteq> ''project'' then Inl (ValueError (''Invalid Modrinth project URL path: '' @ url))
                 else Inr (''https://modrinth.com/project/'' @ p1)
             | _ \<Rightarrow> Inl (ValueError (''Invalid Modrinth project URL path: '' @ url)))"
      using Inr by (auto simp: normalize_project_url_def)
    then show ?thesis
      using Inr True by (auto split: list.splits if_splits)
  qed
qed

lemma urlsplit_path_chars:
  assumes "urlsplit lib url = Inr r" and "c \<in> set (url_path r)"
  shows "c \<noteq> CHR ''?'' \<and> c \<noteq> CHR ''#'' \<and> c \<noteq> CHR 0x09 \<and> c \<noteq> CHR 0x0D \<and> c \<noteq> CHR 0x0A"
proof -
  define url2 where "url2 = filter (\<lambda>c. c \<noteq> CHR 0x09 \<and> c \<noteq> CHR 0x0D \<and> c \<noteq> CHR 0x0A)
                              (dropWhile (\<lambda>c. of_char c \<le> (32::nat)) url)"
  define pre where "pre = takeWhile (\<lambda>c. c \<noteq> CHR '':'') url2"
  define found where "found = (CHR '':'' \<in> set url2 \<and>
                   (case url2 of c # _ \<Rightarrow> c \<noteq> CHR '':'' \<and> is_ascii c \<and> ascii_alpha c | [] \<Rightarrow> False) \<and>
                   list_all scheme_char pre)"
  define url3 where "url3 = (if found then drop (length pre + 1) url2 else url2)"
  define url4 where "url4 = (if take 2 url3 = ''//'' then snd (splitnetloc url3) else url3)"
  define url5 where "url5 = (if CHR ''#'' \<in> set url4 then fst (split_first CHR ''#'' url4) else url4)"
  define url6 where "url6 = (if CHR ''?'' \<in> set url5 then fst (split_first CHR ''?'' url5) else url5)"
  have p: "url_path r = url6"
    using assms(1)
    unfolding urlsplit_def Let_def url2_def [symmetric] pre_def [symmetric] found_def [symmetric]
      url3_def [symmetric] url4_def [symmetric] url5_def [symmetric] url6_def [symmetric]
    by (auto split: if_splits option.splits)
  have s2: "\<And>x. x \<in> set url2 \<Longrightarrow> x \<noteq> CHR 0x09 \<and> x \<noteq> CHR 0x0D \<and> x \<noteq> CHR 0x0A"
    by (simp add: url2_def)
  have s3: "set url3 \<subseteq> set url2" by (auto simp: url3_def dest: in_set_dropD)
  have s4: "set url4 \<subseteq> set url3" by (auto simp: url4_def splitnetloc_def dest: set_dropWhileD in_set_dropD)
  have s5: "set url5 \<subseteq> set url4" by (auto simp: url5_def split_first_def dest: set_takeWhileD)
  have h5: "CHR ''#'' \<notin> set url5" by (auto simp: url5_def split_first_def dest: set_takeWhileD)
  have s6: "set url6 \<subseteq> set url5" by (auto simp: url6_def split_first_def dest: set_takeWhileD)
  have q6: "CHR ''?'' \<notin> set url6" by (auto simp: url6_def split_first_def dest: set_takeWhileD)
  from assms(2) p have c6: "c \<in> set url6" by simp
  then have "c \<in> set url5" "c \<in> set url2" using s6 s5 s4 s3 by blast+
  with c6 h5 q6 s2 show ?thesis by blast
qed

lemma splitparams_subset: "set (fst (splitparams p)) \<subseteq> set p"
proof (cases "CHR ''/'' \<in> set p")
  case False
  then show ?thesis by (auto simp: splitparams_def split_first_def dest: set_takeWhileD)
next
  case True
  define last_seg where "last_seg = rev (takeWhile (\<lambda>c. c \<noteq> CHR ''/'') (rev p))"
  have l: "set last_seg \<subseteq> set p" by (auto simp: last_seg_def dest: set_takeWhileD)
  have f: "set (take (length p - length last_seg) p) \<subseteq> set p" by (auto dest: in_set_takeD)
  have t: "set (takeWhile (\<lambda>x. x \<noteq> CHR '';'') last_seg) \<subseteq> set p"
    using l by (auto dest: set_takeWhileD)
  show ?thesis
    using True l f t
    unfolding splitparams_def Let_def last_seg_def [symmetric] split_first_def
    by auto
qed

lemma urlparse_path_chars:
  assumes "urlparse lib url = Inr r" and "c \<in> set (url_path r)"
  shows "c \<noteq> CHR ''?'' \<and> c \<noteq> CHR ''#'' \<and> c \<noteq> CHR 0x09 \<and> c \<noteq> CHR 0x0D \<and> c \<noteq> CHR 0x0A"
proof -
  from assms(1) obtain r0 where r0: "urlsplit lib url = Inr r0"
    and p: "set (url_path r) \<subseteq> set (url_path r0)"
    using splitparams_subset
    by (cases "urlsplit lib url") (auto simp: urlparse_def split: if_splits)
  from assms(2) p have "c \<in> set (url_path r0)" by blast
  with r0 show ?thesis by (rule urlsplit_path_chars)
qed

lemma normalize_canonical:
  assumes "project_id \<noteq> []"
    and "\<And>c. c \<in> set project_id \<Longrightarrow>
           c \<noteq> CHR ''/'' \<and> c \<noteq> CHR ''?'' \<and> c \<noteq> CHR ''#'' \<and> c \<noteq> CHR '';'' \<and>
           c \<noteq> CHR 0x09 \<and> c \<noteq> CHR 0x0D \<and> c \<noteq> CHR 0x0A"
  shows "normalize_project_url lib (''https://modrinth.com/project/'' @ project_id) =
           Inr (''https://modrinth.com/project/'' @ project_id)"
proof -
  have f: "filter (\<lambda>c. c \<noteq> CHR 0x09 \<and> c \<noteq> CHR 0x0D \<and> c \<noteq> CHR 0x0A) project_id = project_id"
    using assms(2) by (simp add: filter_id_conv)
  have n: "CHR ''#'' \<notin> set project_id" "CHR ''?'' \<notin> set project_id" "CHR '';'' \<notin> set project_id"
    "CHR ''/'' \<notin> set project_id"
    using assms(2) by blast+
  define u where "u = ''https://modrinth.com/project/'' @ project_id"
  define parsed where "parsed =
     \<lparr>url_scheme = ''https'', url_netloc = ''modrinth.com'',
      url_path = ''/project/'' @ project_id, url_params = [], url_query = [], url_fragment = []\<rparr>"
  have s: "urlsplit lib u = Inr parsed"
    unfolding u_def parsed_def using n
    by (simp add: urlsplit_def Let_def f splitnetloc_def netloc_char_def is_ascii_def ascii_alpha_def
          scheme_char_def ascii_lower_def)
  have sc: "CHR '';'' \<notin> set (url_path parsed)"
    using n by (simp add: parsed_def)
  have p: "urlparse lib u = Inr parsed"
    by (simp add: urlparse_def s sc)
  have "split_on CHR ''/'' (''/project/'' @ project_id) = [[], ''project'', project_id]"
    using split_on_absent [OF n(4)] by simp
  then have pp: "path_parts (url_path parsed) = [''project'', project_id]"
    using assms(1) by (simp add: path_parts_def parsed_def)
  have "normalize_project_url lib u = Inr (''https://modrinth.com/project/'' @ project_id)"
    by (simp add: normalize_project_url_def p pp) (simp add: parsed_def)
  then show ?thesis by (simp only: u_def)
qed

text \<open>Normalising twice gives the same as normalising once whenever the result holds no
  semicolon.\<close>

lemma normalize_idempotent_without_params:
  assumes "normalize_project_url lib url = Inr r" and "CHR '';'' \<notin> set r"
  shows "normalize_project_url lib r = Inr r"
proof -
  from assms(1) obtain parsed project_id where
    u: "urlparse lib url = Inr parsed" and
    pp: "path_parts (url_path parsed) = [''project'', project_id]" and
    r: "r = ''https://modrinth.com/project/'' @ project_id"
    unfolding normalize_project_url_Inr by blast
  have m: "project_id \<in> set (path_parts (url_path parsed))" by (simp add: pp)
  from path_parts_part [OF m] have ne: "project_id \<noteq> []" and ns: "CHR ''/'' \<notin> set project_id"
    and sub: "set project_id \<subseteq> set (url_path parsed)" by simp_all
  have "c \<noteq> CHR ''/'' \<and> c \<noteq> CHR ''?'' \<and> c \<noteq> CHR ''#'' \<and> c \<noteq> CHR '';'' \<and>
           c \<noteq> CHR 0x09 \<and> c \<noteq> CHR 0x0D \<and> c \<noteq> CHR 0x0A" if c: "c \<in> set project_id" for c
  proof -
    from c sub have "c \<in> set (url_path parsed)" by blast
    from urlparse_path_chars [OF u this] c ns assms(2) show ?thesis by (auto simp: r)
  qed
  from normalize_canonical [OF ne this] show ?thesis by (simp add: r)
qed

text \<open>
  C5, at the input where the code departs from it. The URL
  \<open>https://modrinth.com/project/a;b/\<close> normalises to \<open>https://modrinth.com/project/a;b\<close>, and
  that result normalises to \<open>https://modrinth.com/project/a\<close>: in the first URL the semicolon
  is not in the last path segment, in the second it is, and \<^verbatim>\<open>urlparse\<close> cuts the last
  segment at its semicolon. \<^verbatim>\<open>parse_project_id\<close> reads the id \<open>a\<close> from the normalised URL
  of the id \<open>a;b\<close>.
\<close>

theorem normalize_project_url_not_idempotent:
  "normalize_project_url lib ''https://modrinth.com/project/a;b/'' = Inr ''https://modrinth.com/project/a;b''
   \<and> normalize_project_url lib ''https://modrinth.com/project/a;b'' = Inr ''https://modrinth.com/project/a''
   \<and> parse_project_id lib ''https://modrinth.com/project/a;b'' = Inr ''a''"
  by code_simp

end
